theory Spec2Isabelle
  imports Complex_Main
begin

section \<open>JavaScript values and objects\<close>

text \<open>
  The values that occur in transaction records, form fields and patches. Strings are lists
  of code units below 256. A number is NaN, an infinity, or the rational value of a
  binary64; the negative zero is not kept apart from zero.
\<close>

datatype jsval = JUndefined | JStr string | JNum rat | JNaN | JPosInf | JNegInf

subsection \<open>Numbers\<close>

text \<open>
  The Number value of a non-negative rational: the nearest binary64, ties to the even
  mantissa. \<open>binary_exponent\<close> finds the exponent of the last mantissa bit, halving from
  \<open>2 ^ 53\<close> on and doubling below \<open>2 ^ 52\<close> down to the subnormal exponent \<open>-1074\<close>;
  \<open>round_at\<close> rounds to a multiple of that power of two; a result of \<open>2 ^ 1024\<close> or more is
  Infinity.
\<close>

definition pow2 :: "int \<Rightarrow> rat" where
  "pow2 e = (if 0 \<le> e then 2 ^ nat e else 1 / 2 ^ nat (- e))"

function exp_down :: "rat \<Rightarrow> int \<Rightarrow> int" where
  "exp_down q e = (if 2 ^ 53 \<le> q then exp_down (q / 2) (e + 1) else e)"
  by pat_completeness auto
termination
proof (relation "measure (\<lambda>(q, e). nat \<lfloor>q\<rfloor>)")
  show "wf (measure (\<lambda>(q :: rat, e :: int). nat \<lfloor>q\<rfloor>))" by simp
next
  fix q :: rat and e :: int
  assume h: "2 ^ 53 \<le> q"
  have a: "of_int \<lfloor>q / 2\<rfloor> \<le> q / 2" by (rule of_int_floor_le)
  have "2 \<le> q" using h by simp
  then have "q / 2 \<le> q - 1" by simp
  moreover have "q - 1 < of_int \<lfloor>q\<rfloor>" by linarith
  ultimately have "of_int \<lfloor>q / 2\<rfloor> < (of_int \<lfloor>q\<rfloor> :: rat)"
    using a by linarith
  then have "\<lfloor>q / 2\<rfloor> < \<lfloor>q\<rfloor>" by simp
  moreover have "0 < \<lfloor>q\<rfloor>" using \<open>2 \<le> q\<close> by linarith
  ultimately show "((q / 2, e + 1), (q, e)) \<in> measure (\<lambda>(q, e). nat \<lfloor>q\<rfloor>)"
    by simp
qed

function exp_up :: "rat \<Rightarrow> int \<Rightarrow> int" where
  "exp_up q e = (if q < 2 ^ 52 \<and> - 1074 < e then exp_up (2 * q) (e - 1) else e)"
  by pat_completeness auto
termination
  by (relation "measure (\<lambda>(q, e). nat (e + 1074))") auto

declare exp_down.simps [simp del]
declare exp_up.simps [simp del]

definition round_at :: "rat \<Rightarrow> int \<Rightarrow> rat" where
  "round_at q e =
     (let m = q / pow2 e;
          f = \<lfloor>m\<rfloor>;
          up = (1 / 2 < m - of_int f \<or> (m - of_int f = 1 / 2 \<and> odd f))
      in of_int (if up then f + 1 else f) * pow2 e)"

definition binary_exponent :: "rat \<Rightarrow> int" where
  "binary_exponent q = (if 2 ^ 53 \<le> q then exp_down q 0 else exp_up q 0)"

definition to_number :: "rat \<Rightarrow> jsval" where
  "to_number q =
     (if q \<le> 0 then JNum 0
      else
        (let v = round_at q (binary_exponent q)
         in if 2 ^ 1024 \<le> v then JPosInf else JNum v))"

fun js_negate :: "jsval \<Rightarrow> jsval" where
  "js_negate (JNum q) = JNum (- q)"
| "js_negate JPosInf = JNegInf"
| "js_negate JNegInf = JPosInf"
| "js_negate v = v"

subsection \<open>Objects\<close>

text \<open>
  An object is the list of its properties in insertion order. Reading a missing property
  gives \<open>undefined\<close>; writing replaces the value in place or appends the property.
\<close>

type_synonym jsobj = "(string \<times> jsval) list"

definition get_prop :: "jsobj \<Rightarrow> string \<Rightarrow> jsval" where
  "get_prop obj k = (case map_of obj k of None \<Rightarrow> JUndefined | Some v \<Rightarrow> v)"

fun set_prop :: "jsobj \<Rightarrow> string \<Rightarrow> jsval \<Rightarrow> jsobj" where
  "set_prop [] k v = [(k, v)]"
| "set_prop ((k', v') # ps) k v =
     (if k' = k then (k, v) # ps else (k', v') # set_prop ps k v)"

text \<open>The object spread \<^verbatim>\<open>{ ...record, ...patch }\<close>.\<close>

definition spread :: "jsobj \<Rightarrow> jsobj \<Rightarrow> jsobj" where
  "spread record patch = fold (\<lambda>(k, v) obj. set_prop obj k v) patch record"

section \<open>The IndexedDB object store\<close>

text \<open>
  \<^verbatim>\<open>openDB\<close> creates one object store, \<^verbatim>\<open>transactions\<close>, with key path \<^verbatim>\<open>id\<close> and no key
  generator. The store is the list of its records in ascending key order, which is the
  order \<^verbatim>\<open>getAll\<close> reports. A key is a number other than NaN or a string; numbers sort
  before strings, strings by code unit. Opening the database is taken to succeed: a
  browser that refuses storage is outside this model.
\<close>

type_synonym store = "jsobj list"

datatype error = ConstraintError | DataError | Error string

fun valid_key :: "jsval \<Rightarrow> bool" where
  "valid_key (JStr s) = True"
| "valid_key (JNum q) = True"
| "valid_key JPosInf = True"
| "valid_key JNegInf = True"
| "valid_key JUndefined = False"
| "valid_key JNaN = False"

fun str_less :: "string \<Rightarrow> string \<Rightarrow> bool" where
  "str_less [] [] = False"
| "str_less [] (y # ys) = True"
| "str_less (x # xs) [] = False"
| "str_less (x # xs) (y # ys) =
     ((of_char x :: nat) < of_char y \<or> (x = y \<and> str_less xs ys))"

fun key_less :: "jsval \<Rightarrow> jsval \<Rightarrow> bool" where
  "key_less JNegInf b = (b \<noteq> JNegInf \<and> valid_key b)"
| "key_less (JNum p) (JNum q) = (p < q)"
| "key_less (JNum p) JPosInf = True"
| "key_less (JNum p) (JStr s) = True"
| "key_less JPosInf (JStr s) = True"
| "key_less (JStr s) (JStr t) = str_less s t"
| "key_less a b = False"

definition store_get :: "store \<Rightarrow> jsval \<Rightarrow> jsobj option" where
  "store_get s k = find (\<lambda>r. get_prop r ''id'' = k) s"

text \<open>
  Writing a record whose key is valid: over the record that has the key, or else at its
  place in the key order.
\<close>

fun insert_by_key :: "jsobj \<Rightarrow> store \<Rightarrow> store" where
  "insert_by_key r [] = [r]"
| "insert_by_key r (x # xs) =
     (if key_less (get_prop r ''id'') (get_prop x ''id'') then r # x # xs
      else x # insert_by_key r xs)"

definition store_write :: "jsobj \<Rightarrow> store \<Rightarrow> store" where
  "store_write r s =
     (if store_get s (get_prop r ''id'') \<noteq> None
      then map (\<lambda>x. if get_prop x ''id'' = get_prop r ''id'' then r else x) s
      else insert_by_key r s)"

text \<open>
  \<^verbatim>\<open>store.add\<close> fails with a ConstraintError on a key that is taken and with a DataError on
  a record whose \<^verbatim>\<open>id\<close> is no key; \<^verbatim>\<open>store.put\<close> overwrites. A failed request aborts its
  transaction, so the store is as before. Both give the key back.
\<close>

definition store_add :: "store \<Rightarrow> jsobj \<Rightarrow> (error + jsval) \<times> store" where
  "store_add s r =
     (if \<not> valid_key (get_prop r ''id'') then (Inl DataError, s)
      else if store_get s (get_prop r ''id'') \<noteq> None then (Inl ConstraintError, s)
      else (Inr (get_prop r ''id''), store_write r s))"

definition store_put :: "store \<Rightarrow> jsobj \<Rightarrow> (error + jsval) \<times> store" where
  "store_put s r =
     (if \<not> valid_key (get_prop r ''id'') then (Inl DataError, s)
      else (Inr (get_prop r ''id''), store_write r s))"

section \<open>The store operations of the application\<close>

definition addTransaction :: "jsobj \<Rightarrow> store \<Rightarrow> (error + jsval) \<times> store" where
  "addTransaction tx s = store_add s tx"

definition getAllTransactions :: "store \<Rightarrow> jsobj list" where
  "getAllTransactions s = s"

text \<open>
  \<^verbatim>\<open>updateTransaction\<close> reads the record, rejects with \<^verbatim>\<open>new Error('Not found')\<close> when there
  is none, and puts the spread of record and patch back. \<^verbatim>\<open>store.get\<close> throws a DataError
  on an argument that is no key, which rejects the promise as well.
\<close>

definition updateTransaction :: "jsval \<Rightarrow> jsobj \<Rightarrow> store \<Rightarrow> (error + jsobj) \<times> store" where
  "updateTransaction ident patch s =
     (if \<not> valid_key ident then (Inl DataError, s)
      else case store_get s ident of
        None \<Rightarrow> (Inl (Error ''Not found''), s)
      | Some record \<Rightarrow>
          (let updated = spread record patch in
           case store_put s updated of
             (Inl e, s') \<Rightarrow> (Inl e, s')
           | (Inr k, s') \<Rightarrow> (Inr updated, s')))"

section \<open>Amounts typed into the form\<close>

text \<open>
  The regular expression classes on code units below 256: \<^verbatim>\<open>\d\<close> is an ASCII digit, \<^verbatim>\<open>\s\<close>
  is tab, line feed, vertical tab, form feed, carriage return, space or no-break space.
\<close>

definition is_digit :: "char \<Rightarrow> bool" where
  "is_digit c = (48 \<le> (of_char c :: nat) \<and> (of_char c :: nat) \<le> 57)"

definition is_space :: "char \<Rightarrow> bool" where
  "is_space c = ((of_char c :: nat) \<in> {9, 10, 11, 12, 13, 32, 160})"

definition digits_val :: "string \<Rightarrow> nat" where
  "digits_val ds = foldl (\<lambda>a c. 10 * a + ((of_char c :: nat) - 48)) 0 ds"

text \<open>
  \<^verbatim>\<open>replace(/\B(?=(\d{3})+(?!\d))/g, ' ')\<close> on a string of digits: a space goes in front of
  every digit that is followed by a multiple of three digits less one, that is after
  \<open>c\<close> when the rest \<open>cs\<close> is not empty and has a length divisible by three.
\<close>

fun group3 :: "string \<Rightarrow> string" where
  "group3 [] = []"
| "group3 (c # cs) =
     (if cs \<noteq> [] \<and> length cs mod 3 = 0 then c # CHR '' '' # group3 cs
      else c # group3 cs)"

definition formatAmountInput :: "string \<Rightarrow> string" where
  "formatAmountInput v =
     (let numericValue = filter is_digit v in
      if numericValue = [] then [] else group3 numericValue)"

text \<open>
  \<^verbatim>\<open>parseInt(s, 10)\<close>: leading white space is skipped, a sign is read, and the longest run
  of digits gives the integer, of which the result is the Number value; no digit gives
  NaN.
\<close>

definition parseInt10 :: "string \<Rightarrow> jsval" where
  "parseInt10 s =
     (let t = dropWhile is_space s;
          neg = (t \<noteq> [] \<and> hd t = CHR ''-'');
          u = (if t \<noteq> [] \<and> (hd t = CHR ''-'' \<or> hd t = CHR ''+'') then tl t else t);
          ds = takeWhile is_digit u
      in if ds = [] then JNaN
         else if neg then js_negate (to_number (of_nat (digits_val ds)))
         else to_number (of_nat (digits_val ds)))"

definition parseAmount :: "string \<Rightarrow> jsval" where
  "parseAmount formattedAmount =
     (let numericValue = filter (\<lambda>c. \<not> is_space c) formattedAmount in
      if numericValue = [] then JNum 0 else parseInt10 numericValue)"

text \<open>
  \<^verbatim>\<open>parseFloat(s)\<close>: white space, a sign, then \<^verbatim>\<open>Infinity\<close> or a decimal literal: digits, a
  fraction, and an exponent when at least one digit follows the \<^verbatim>\<open>e\<close>. The result is the
  Number value of the decimal.
\<close>

definition exponent_of :: "string \<Rightarrow> int" where
  "exponent_of r =
     (if r \<noteq> [] \<and> (hd r = CHR ''e'' \<or> hd r = CHR ''E'') then
        (let r1 = tl r;
             eneg = (r1 \<noteq> [] \<and> hd r1 = CHR ''-'');
             r2 = (if r1 \<noteq> [] \<and> (hd r1 = CHR ''-'' \<or> hd r1 = CHR ''+'') then tl r1 else r1);
             es = takeWhile is_digit r2
         in if es = [] then 0
            else if eneg then - int (digits_val es) else int (digits_val es))
      else 0)"

definition parseFloat :: "string \<Rightarrow> jsval" where
  "parseFloat s =
     (let t = dropWhile is_space s;
          neg = (t \<noteq> [] \<and> hd t = CHR ''-'');
          u = (if t \<noteq> [] \<and> (hd t = CHR ''-'' \<or> hd t = CHR ''+'') then tl t else t)
      in if take 8 u = ''Infinity'' then (if neg then JNegInf else JPosInf)
         else
           (let ip = takeWhile is_digit u;
                r = dropWhile is_digit u;
                fp = (if r \<noteq> [] \<and> hd r = CHR ''.'' then takeWhile is_digit (tl r) else []);
                r' = (if r \<noteq> [] \<and> hd r = CHR ''.'' then dropWhile is_digit (tl r) else r);
                e = exponent_of r';
                m = (of_nat (digits_val ip) :: rat)
                      + of_nat (digits_val fp) / 10 ^ length fp;
                q = (if 0 \<le> e then m * 10 ^ nat e else m / 10 ^ nat (- e))
            in if ip = [] \<and> fp = [] then JNaN
               else if neg then js_negate (to_number q) else to_number q))"

section \<open>The application state\<close>

text \<open>
  What the component and its environment hold: the database, the React state
  (\<open>form\<close>, \<open>transactions\<close>, \<open>online\<close>, \<open>syncing\<close>, \<open>isSubmitting\<close>, \<open>notification\<close>),
  \<^verbatim>\<open>navigator.onLine\<close>, the alerts shown and the errors written to the console. Two
  further fields record what happened: \<open>sent\<close> lists the batches handed to the transport,
  \<open>trySync_calls\<close> counts the entries into \<^verbatim>\<open>trySync\<close>.
\<close>

record 'f world =
  db :: store
  form :: 'f
  transactions :: "jsobj list"
  online :: bool
  syncing :: bool
  isSubmitting :: bool
  notification :: "(string \<times> string) option"
  alerts :: "string list"
  navigator_onLine :: bool
  console :: "error list"
  sent :: "jsobj list list"
  trySync_calls :: nat

text \<open>
  The form of the prototype and the form of MobiLedger. Every field is a string: the
  initial state and the setters store nothing else, so \<^verbatim>\<open>!form.montant\<close> is the test for
  the empty string.
\<close>

record form1 =
  tx_type :: string
  nom_complet :: string
  id_document :: string
  telephone :: string
  montant :: string

record form2 =
  tx_type2 :: string
  prenom :: string
  nom :: string
  id_document2 :: string
  telephone2 :: string
  montant2 :: string

subsection \<open>Connectivity\<close>

definition onOnline :: "'f world \<Rightarrow> 'f world" where
  "onOnline w = w\<lparr>online := True\<rparr>"

definition onOffline :: "'f world \<Rightarrow> 'f world" where
  "onOffline w = w\<lparr>online := False\<rparr>"

text \<open>The browser's events: it updates \<^verbatim>\<open>navigator.onLine\<close> and runs the listener.\<close>

datatype net_event = GoOnline | GoOffline

fun connectivity :: "net_event \<Rightarrow> 'f world \<Rightarrow> 'f world" where
  "connectivity GoOnline w = onOnline (w\<lparr>navigator_onLine := True\<rparr>)"
| "connectivity GoOffline w = onOffline (w\<lparr>navigator_onLine := False\<rparr>)"

subsection \<open>Loading the list\<close>

text \<open>
  \<^verbatim>\<open>all.sort((a, b) => new Date(b.created_at) - new Date(a.created_at))\<close>. The time value
  that \<^verbatim>\<open>new Date(v)\<close> has is a parameter, \<open>dateOf\<close>, with \<open>None\<close> for an invalid date; the
  difference is then NaN, which the sort reads as zero. The sort is stable.
\<close>

definition by_date_desc :: "(jsval \<Rightarrow> int option) \<Rightarrow> jsobj \<Rightarrow> jsobj \<Rightarrow> int" where
  "by_date_desc dateOf a b =
     (case (dateOf (get_prop b ''created_at''), dateOf (get_prop a ''created_at'')) of
        (Some tb, Some ta) \<Rightarrow> tb - ta
      | _ \<Rightarrow> 0)"

fun insert_by :: "('a \<Rightarrow> 'a \<Rightarrow> int) \<Rightarrow> 'a \<Rightarrow> 'a list \<Rightarrow> 'a list" where
  "insert_by c x [] = [x]"
| "insert_by c x (y # ys) = (if c x y \<le> 0 then x # y # ys else y # insert_by c x ys)"

definition js_sort :: "('a \<Rightarrow> 'a \<Rightarrow> int) \<Rightarrow> 'a list \<Rightarrow> 'a list" where
  "js_sort c xs = foldr (insert_by c) xs []"

definition loadTransactions :: "(jsval \<Rightarrow> int option) \<Rightarrow> 'f world \<Rightarrow> 'f world" where
  "loadTransactions dateOf w =
     w\<lparr>transactions := js_sort (by_date_desc dateOf) (getAllTransactions (db w))\<rparr>"

definition showNotification :: "string \<Rightarrow> string \<Rightarrow> 'f world \<Rightarrow> 'f world" where
  "showNotification message kind w = w\<lparr>notification := Some (message, kind)\<rparr>"

definition alert :: "string \<Rightarrow> 'f world \<Rightarrow> 'f world" where
  "alert message w = w\<lparr>alerts := alerts w @ [message]\<rparr>"

subsection \<open>Synchronisation\<close>

text \<open>
  An \<^verbatim>\<open>async\<close> function runs undisturbed up to an \<^verbatim>\<open>await\<close>. The wait for the transport,
  which the stub answers after 800 ms, is the suspension during which other handlers run,
  so \<^verbatim>\<open>trySync\<close> is given in two parts, before and after it; the database requests are
  taken as single steps. The messages shown to the user are written without their accents.
\<close>

record sync_result =
  ok :: bool
  syncedIds :: "jsval list"

definition fakeSendToServer :: "jsobj list \<Rightarrow> sync_result" where
  "fakeSendToServer batch = \<lparr>ok = True, syncedIds = map (\<lambda>b. get_prop b ''id'') batch\<rparr>"

text \<open>
  What the awaited transport promise settles to: a rejection, or a value that is falsy
  (\<open>None\<close>) or a result object.
\<close>

datatype reply = Rejected error | Resolved "sync_result option"

text \<open>
  \<^verbatim>\<open>trySync\<close> up to its first suspension. \<open>snapshot\<close> is the \<^verbatim>\<open>transactions\<close> array of the
  render that created the closure. With nothing pending the function returns through
  \<^verbatim>\<open>finally\<close>; otherwise the batch goes to the transport and the call is suspended.
\<close>

definition trySync_start :: "jsobj list \<Rightarrow> 'f world \<Rightarrow> jsobj list option \<times> 'f world" where
  "trySync_start snapshot w =
     (let w1 = w\<lparr>trySync_calls := Suc (trySync_calls w), syncing := True\<rparr>;
          pending = filter (\<lambda>t. get_prop t ''status'' = JStr ''pending'') snapshot
      in if pending = [] then (None, w1\<lparr>syncing := False\<rparr>)
         else (Some pending, w1\<lparr>sent := sent w1 @ [pending]\<rparr>))"

text \<open>
  \<^verbatim>\<open>Promise.all(res.syncedIds.map((id) => updateTransaction(id, {...})))\<close>: every update
  is started and runs in its own transaction, whatever becomes of the others; \<open>nows i\<close> is
  the time string read for the \<open>i\<close>-th id. The errors are collected in order.
\<close>

fun update_all :: "(nat \<Rightarrow> string) \<Rightarrow> nat \<Rightarrow> jsval list \<Rightarrow> store \<Rightarrow> error list \<times> store" where
  "update_all nows i [] s = ([], s)"
| "update_all nows i (ident # ids) s =
     (case updateTransaction ident
             [(''status'', JStr ''synced''), (''synced_at'', JStr (nows i))] s of
        (Inl e, s') \<Rightarrow> (case update_all nows (Suc i) ids s' of (es, s'') \<Rightarrow> (e # es, s''))
      | (Inr r, s') \<Rightarrow> update_all nows (Suc i) ids s')"

text \<open>\<^verbatim>\<open>trySync\<close> from the moment the transport promise settles.\<close>

definition trySync_finish ::
  "(jsval \<Rightarrow> int option) \<Rightarrow> (nat \<Rightarrow> string) \<Rightarrow> reply \<Rightarrow> 'f world \<Rightarrow> 'f world" where
  "trySync_finish dateOf nows r w =
     (case r of
        Rejected e \<Rightarrow> w\<lparr>console := console w @ [e], syncing := False\<rparr>
      | Resolved None \<Rightarrow> w\<lparr>syncing := False\<rparr>
      | Resolved (Some res) \<Rightarrow>
          if ok res then
            (case update_all nows 0 (syncedIds res) (db w) of
               ([], s') \<Rightarrow> (loadTransactions dateOf (w\<lparr>db := s'\<rparr>))\<lparr>syncing := False\<rparr>
             | (e # es, s') \<Rightarrow> w\<lparr>db := s', console := console w @ [e], syncing := False\<rparr>)
          else w\<lparr>syncing := False\<rparr>)"

text \<open>A call that nothing interleaves with, against the stub transport.\<close>

definition trySync ::
  "(jsval \<Rightarrow> int option) \<Rightarrow> (nat \<Rightarrow> string) \<Rightarrow> jsobj list \<Rightarrow> 'f world \<Rightarrow> 'f world" where
  "trySync dateOf nows snapshot w =
     (case trySync_start snapshot w of
        (None, w') \<Rightarrow> w'
      | (Some pending, w') \<Rightarrow>
          trySync_finish dateOf nows (Resolved (Some (fakeSendToServer pending))) w')"

text \<open>
  \<^verbatim>\<open>forceSync\<close> of the prototype, and the button that calls it, which the render disables
  with \<^verbatim>\<open>disabled={!online || syncing}\<close>; \<open>r\<close> is the state that was rendered.
\<close>

definition forceSync ::
  "(jsval \<Rightarrow> int option) \<Rightarrow> (nat \<Rightarrow> string) \<Rightarrow> jsobj list \<Rightarrow> 'f world \<Rightarrow> 'f world" where
  "forceSync dateOf nows snapshot w =
     (if \<not> navigator_onLine w then
        showNotification ''Pas de connexion - impossible de synchroniser.'' ''warning'' w
      else showNotification ''Synchronisation terminee (si le serveur a repondu OK).''
             ''success'' (trySync dateOf nows snapshot w))"

definition click_forceSync ::
  "(jsval \<Rightarrow> int option) \<Rightarrow> (nat \<Rightarrow> string) \<Rightarrow> 'f world \<Rightarrow> 'f world \<Rightarrow> 'f world" where
  "click_forceSync dateOf nows r w =
     (if \<not> online r \<or> syncing r then w else forceSync dateOf nows (transactions r) w)"

subsection \<open>Submitting the form\<close>

definition new_transaction :: "string \<Rightarrow> string \<Rightarrow> form1 \<Rightarrow> jsobj" where
  "new_transaction uuid now f =
     [(''id'', JStr uuid),
      (''type'', JStr (tx_type f)),
      (''nom_complet'', JStr (nom_complet f)),
      (''id_document'', JStr (id_document f)),
      (''telephone'', JStr (telephone f)),
      (''montant'', parseAmount (montant f)),
      (''status'', JStr ''pending''),
      (''created_at'', JStr now)]"

text \<open>
  \<^verbatim>\<open>handleSubmit\<close> of the prototype. \<open>f\<close> and \<open>snapshot\<close> are the \<^verbatim>\<open>form\<close> and the
  \<^verbatim>\<open>transactions\<close> of the render whose closure runs, \<open>uuid\<close> is what \<^verbatim>\<open>uuidv4()\<close> returns and
  \<open>now\<close> what \<^verbatim>\<open>new Date().toISOString()\<close> returns.
\<close>

definition handleSubmit ::
  "(jsval \<Rightarrow> int option) \<Rightarrow> string \<Rightarrow> string \<Rightarrow> (nat \<Rightarrow> string) \<Rightarrow> form1 \<Rightarrow> jsobj list
     \<Rightarrow> form1 world \<Rightarrow> form1 world" where
  "handleSubmit dateOf uuid now nows f snapshot w =
     (if nom_complet f = [] \<or> id_document f = [] \<or> telephone f = [] \<or> montant f = [] then
        showNotification ''Remplissez tous les champs requis.'' ''warning'' w
      else
        (let w1 = w\<lparr>isSubmitting := True\<rparr>;
             tx = new_transaction uuid now f
         in case addTransaction tx (db w1) of
              (Inl e, s') \<Rightarrow>
                (showNotification ''Erreur lors de la sauvegarde locale.'' ''danger''
                   (w1\<lparr>db := s', console := console w1 @ [e]\<rparr>))\<lparr>isSubmitting := False\<rparr>
            | (Inr k, s') \<Rightarrow>
                (let w2 = w1\<lparr>db := s',
                            form := \<lparr>tx_type = ''deposit'', nom_complet = [], id_document = [],
                                     telephone = [], montant = []\<rparr>\<rparr>;
                     w3 = loadTransactions dateOf w2;
                     w4 = (if navigator_onLine w3 then trySync dateOf nows snapshot w3 else w3)
                 in (showNotification ''Transaction enregistree.'' ''success'' w4)
                      \<lparr>isSubmitting := False\<rparr>)))"

definition new_transaction2 :: "string \<Rightarrow> string \<Rightarrow> form2 \<Rightarrow> jsobj" where
  "new_transaction2 uuid now f =
     [(''id'', JStr uuid),
      (''type'', JStr (tx_type2 f)),
      (''prenom'', JStr (prenom f)),
      (''nom'', JStr (nom f)),
      (''id_document'', JStr (id_document2 f)),
      (''telephone'', JStr (telephone2 f)),
      (''montant'', parseFloat (montant2 f)),
      (''status'', JStr ''pending''),
      (''created_at'', JStr now)]"

text \<open>\<^verbatim>\<open>handleSubmit\<close> of MobiLedger.\<close>

definition handleSubmit2 ::
  "(jsval \<Rightarrow> int option) \<Rightarrow> string \<Rightarrow> string \<Rightarrow> (nat \<Rightarrow> string) \<Rightarrow> form2 \<Rightarrow> jsobj list
     \<Rightarrow> form2 world \<Rightarrow> form2 world" where
  "handleSubmit2 dateOf uuid now nows f snapshot w =
     (if prenom f = [] \<or> nom f = [] \<or> id_document2 f = [] \<or> telephone2 f = []
         \<or> montant2 f = [] then
        alert ''Remplissez tous les champs.'' w
      else
        (let tx = new_transaction2 uuid now f
         in case addTransaction tx (db w) of
              (Inl e, s') \<Rightarrow> alert ''Erreur sauvegarde locale'' (w\<lparr>db := s', console := console w @ [e]\<rparr>)
            | (Inr k, s') \<Rightarrow>
                (let w2 = w\<lparr>db := s',
                           form := \<lparr>tx_type2 = ''deposit'', prenom = [], nom = [],
                                    id_document2 = [], telephone2 = [], montant2 = []\<rparr>\<rparr>;
                     w3 = loadTransactions dateOf w2
                 in if navigator_onLine w3 then trySync dateOf nows snapshot w3 else w3)))"

section \<open>The service workers\<close>

text \<open>
  A request has a URL, a method and a mode; a response has a status and a body. A cache
  maps the URLs of GET requests to responses, and the cache storage lists the named
  caches in the order of their creation. \<open>fetch\<close> is a parameter, \<open>net\<close>: \<open>None\<close> is a
  rejected fetch. \<open>origin\<close> is \<^verbatim>\<open>self.location.origin\<close>, against which the worker resolves
  the paths it names.
\<close>

record request =
  url :: string  http_method :: string  mode :: string

record response =
  status :: nat
  body :: string

type_synonym cache = "(string \<times> response) list"

type_synonym cache_storage = "(string \<times> cache) list"

datatype sw_error = TypeError

record worker =
  caches :: cache_storage
  waiting_skipped :: bool
  claimed :: bool

fun cache_put :: "cache \<Rightarrow> string \<Rightarrow> response \<Rightarrow> cache" where
  "cache_put [] u r = [(u, r)]"
| "cache_put ((u', r') # c) u r = (if u' = u then (u, r) # c else (u', r') # cache_put c u r)"

definition caches_open :: "string \<Rightarrow> cache_storage \<Rightarrow> cache_storage" where
  "caches_open name cs = (if map_of cs name = None then cs @ [(name, [])] else cs)"

definition caches_delete :: "string \<Rightarrow> cache_storage \<Rightarrow> cache_storage" where
  "caches_delete name cs = filter (\<lambda>(n, c). n \<noteq> name) cs"

definition caches_keys :: "cache_storage \<Rightarrow> string list" where
  "caches_keys cs = map fst cs"

text \<open>\<^verbatim>\<open>caches.match\<close>: the first cache, in creation order, that has the URL; only GET matches.\<close>

fun caches_match_url :: "string \<Rightarrow> cache_storage \<Rightarrow> response option" where
  "caches_match_url u [] = None"
| "caches_match_url u ((n, c) # cs) =
     (case map_of c u of Some r \<Rightarrow> Some r | None \<Rightarrow> caches_match_url u cs)"

definition caches_match :: "request \<Rightarrow> cache_storage \<Rightarrow> response option" where
  "caches_match req cs = (if http_method req = ''GET'' then caches_match_url (url req) cs else None)"

text \<open>
  \<^verbatim>\<open>caches.open(name).then(cache => cache.put(req, clone))\<close>: the cache is opened, and so
  created when missing; \<^verbatim>\<open>put\<close> rejects a request that is not a GET.
\<close>

definition open_and_put :: "string \<Rightarrow> request \<Rightarrow> response \<Rightarrow> cache_storage \<Rightarrow> cache_storage" where
  "open_and_put name req resp cs =
     (if http_method req = ''GET'' then
        map (\<lambda>(n, c). if n = name then (n, cache_put c (url req) resp) else (n, c))
          (caches_open name cs)
      else caches_open name cs)"

text \<open>
  \<^verbatim>\<open>cache.addAll(urls)\<close> fetches every URL and stores the responses only when each fetch
  has resolved with a status from 200 to 299.
\<close>

definition precache_request :: "string \<Rightarrow> string \<Rightarrow> request" where
  "precache_request origin path = \<lparr>url = origin @ path, http_method = ''GET'', mode = ''cors''\<rparr>"

definition addAll ::
  "string \<Rightarrow> (request \<Rightarrow> response option) \<Rightarrow> string list \<Rightarrow> cache \<Rightarrow> sw_error + cache" where
  "addAll origin net urls c =
     (let rs = map (\<lambda>p. (origin @ p, net (precache_request origin p))) urls in
      if list_all (\<lambda>(u, r). case r of None \<Rightarrow> False
                            | Some resp \<Rightarrow> 200 \<le> status resp \<and> status resp \<le> 299) rs
      then Inr (fold (\<lambda>(u, r) c'. case r of None \<Rightarrow> c' | Some resp \<Rightarrow> cache_put c' u resp) rs c)
      else Inl TypeError)"

text \<open>
  The install listener of both versioned workers: open the cache, add the precache list,
  skip waiting. A failed \<^verbatim>\<open>addAll\<close> rejects the promise given to \<^verbatim>\<open>waitUntil\<close>.
\<close>

definition install ::
  "string \<Rightarrow> string list \<Rightarrow> string \<Rightarrow> (request \<Rightarrow> response option) \<Rightarrow> worker
     \<Rightarrow> (sw_error + unit) \<times> worker" where
  "install name urls origin net st =
     (let cs = caches_open name (caches st) in
      case addAll origin net urls (case map_of cs name of None \<Rightarrow> [] | Some c \<Rightarrow> c) of
        Inl e \<Rightarrow> (Inl e, st\<lparr>caches := cs\<rparr>)
      | Inr c' \<Rightarrow>
          (Inr (), st\<lparr>caches := map (\<lambda>(n, c). if n = name then (n, c') else (n, c)) cs,
                      waiting_skipped := True\<rparr>))"

subsection \<open>The worker of \<^verbatim>\<open>public/service-worker.js\<close>\<close>

definition CACHE_NAME_v1 :: string where
  "CACHE_NAME_v1 = ''om-cache-v1''"

definition PRECACHE_URLS_v1 :: "string list" where
  "PRECACHE_URLS_v1 =
     [''/'', ''/index.html'', ''/main.jsx'', ''/App.jsx'', ''/mobile_money.jsx'',
      ''/src/index.css'', ''/public/manifest.json'', ''/public/service-worker.js'',
      ''/public/_redirects'']"

definition install_v1 ::
  "string \<Rightarrow> (request \<Rightarrow> response option) \<Rightarrow> worker \<Rightarrow> (sw_error + unit) \<times> worker" where
  "install_v1 = install CACHE_NAME_v1 PRECACHE_URLS_v1"

definition activate_v1 :: "worker \<Rightarrow> worker" where
  "activate_v1 st = st\<lparr>claimed := True\<rparr>"

definition fetch_v1 ::
  "string \<Rightarrow> (request \<Rightarrow> response option) \<Rightarrow> request \<Rightarrow> worker \<Rightarrow> response option \<times> worker" where
  "fetch_v1 origin net req st =
     (case caches_match req (caches st) of
        Some cachedResp \<Rightarrow> (Some cachedResp, st)
      | None \<Rightarrow>
          (case net req of
             Some networkResp \<Rightarrow>
               (Some networkResp,
                if http_method req = ''GET'' \<and> status networkResp = 200
                   \<and> take (length origin) (url req) = origin
                then st\<lparr>caches := open_and_put CACHE_NAME_v1 req networkResp (caches st)\<rparr>
                else st)
           | None \<Rightarrow>
               (if mode req = ''navigate'' then caches_match_url (origin @ ''/'') (caches st)
                else None, st)))"

subsection \<open>The worker with the cache \<^verbatim>\<open>om-cache-v2\<close>\<close>

definition CACHE_NAME_v2 :: string where
  "CACHE_NAME_v2 = ''om-cache-v2''"

definition PRECACHE_URLS_v2 :: "string list" where
  "PRECACHE_URLS_v2 =
     [''/'', ''/index.html'', ''/manifest.json'', ''/service-worker.js'', ''/_redirects'',
      ''/dist/index.html'', ''/dist/manifest.json'', ''/dist/service-worker.js'',
      ''/dist/assets/index-HLPfRb6J.css'', ''/dist/assets/index-HxX_gya9.js'',
      ''/dist/assets/index.es-D8PF3V3o.js'', ''/dist/assets/html2canvas.esm-CBrSDip1.js'',
      ''/dist/assets/purify.es-CQJ0hv7W.js'']"

definition install_v2 ::
  "string \<Rightarrow> (request \<Rightarrow> response option) \<Rightarrow> worker \<Rightarrow> (sw_error + unit) \<times> worker" where
  "install_v2 = install CACHE_NAME_v2 PRECACHE_URLS_v2"

definition activate_v2 :: "worker \<Rightarrow> worker" where
  "activate_v2 st =
     st\<lparr>caches := fold caches_delete
                     (filter (\<lambda>k. k \<noteq> CACHE_NAME_v2) (caches_keys (caches st))) (caches st),
        claimed := True\<rparr>"

definition fetch_v2 ::
  "string \<Rightarrow> (request \<Rightarrow> response option) \<Rightarrow> request \<Rightarrow> worker \<Rightarrow> response option \<times> worker" where
  "fetch_v2 origin net req st =
     (if mode req = ''navigate'' then
        (case net req of
           Some resp \<Rightarrow>
             (Some resp,
              if status resp = 200
              then st\<lparr>caches := open_and_put CACHE_NAME_v2 req resp (caches st)\<rparr> else st)
         | None \<Rightarrow> (caches_match_url (origin @ ''/index.html'') (caches st), st))
      else
        (case caches_match req (caches st) of
           Some cachedResp \<Rightarrow> (Some cachedResp, st)
         | None \<Rightarrow>
             (case net req of
                Some networkResp \<Rightarrow>
                  (Some networkResp,
                   if http_method req = ''GET'' \<and> status networkResp = 200
                      \<and> take (length origin) (url req) = origin
                   then st\<lparr>caches := open_and_put CACHE_NAME_v2 req networkResp (caches st)\<rparr>
                   else st)
              | None \<Rightarrow> (None, st))))"

section \<open>Sample data\<close>

definition record_A :: jsobj where
  "record_A = [(''id'', JStr ''A''), (''montant'', JNum 500), (''status'', JStr ''pending'')]"

definition record_B :: jsobj where
  "record_B = [(''id'', JStr ''B''), (''montant'', JNum 70), (''status'', JStr ''pending'')]"

definition blank_form :: form1 where
  "blank_form = \<lparr>tx_type = ''deposit'', nom_complet = [], id_document = [],
                  telephone = [], montant = []\<rparr>"

text \<open>A world that is online, with an empty database and nothing on screen.\<close>

definition world0 :: "form1 world" where
  "world0 = \<lparr>db = [], form = blank_form, transactions = [], online = True, syncing = False,
              isSubmitting = False, notification = None, alerts = [],
              navigator_onLine = True, console = [], sent = [], trySync_calls = 0\<rparr>"

text \<open>Two pending records, stored and on screen, and a transport result that accepts the first.\<close>

definition worldAB :: "form1 world" where
  "worldAB = world0\<lparr>db := [record_A, record_B], transactions := [record_A, record_B]\<rparr>"

definition accept_A :: sync_result where
  "accept_A = \<lparr>ok = True, syncedIds = [JStr ''A'']\<rparr>"

text \<open>The test that \<^verbatim>\<open>trySync\<close> filters with: \<^verbatim>\<open>t.status === 'pending'\<close>.\<close>

definition is_pending :: "jsobj \<Rightarrow> bool" where
  "is_pending t = (get_prop t ''status'' = JStr ''pending'')"

text \<open>A \<^verbatim>\<open>Date\<close> that parses nothing, and a clock that stands still.\<close>

definition no_date :: "jsval \<Rightarrow> int option" where
  "no_date v = None"

definition fixed_now :: "nat \<Rightarrow> string" where
  "fixed_now i = ''2025-01-01T00:00:00.000Z''"

text \<open>One pending record, stored and on screen.\<close>

definition world_A :: "form1 world" where
  "world_A = world0\<lparr>db := [record_A], transactions := [record_A]\<rparr>"

text \<open>The store holds record A as synchronised; nothing is on screen.\<close>

definition record_A_synced :: jsobj where
  "record_A_synced = [(''id'', JStr ''A''), (''montant'', JNum 500), (''status'', JStr ''synced''),
                      (''synced_at'', JStr ''2025-01-01T00:00:00.000Z'')]"

definition world_synced :: "form1 world" where
  "world_synced = world0\<lparr>db := [record_A_synced]\<rparr>"

text \<open>Two pending records and no connection.\<close>

definition world_offline :: "form1 world" where
  "world_offline = worldAB\<lparr>online := False, navigator_onLine := False\<rparr>"

definition filled_form :: form1 where
  "filled_form = \<lparr>tx_type = ''deposit'', nom_complet = ''Awa Traore'', id_document = ''B123'',
                   telephone = ''70000000'', montant = ''50 000''\<rparr>"

text \<open>The empty world of MobiLedger, and a form with a negative amount typed in.\<close>

definition world2 :: "form2 world" where
  "world2 = \<lparr>db = [], form = \<lparr>tx_type2 = ''deposit'', prenom = [], nom = [], id_document2 = [],
                               telephone2 = [], montant2 = []\<rparr>,
              transactions = [], online = True, syncing = False,
              isSubmitting = False, notification = None, alerts = [],
              navigator_onLine = True, console = [], sent = [], trySync_calls = 0\<rparr>"

definition negative_form :: form2 where
  "negative_form = \<lparr>tx_type2 = ''withdrawal'', prenom = ''Awa'', nom = ''Traore'',
                     id_document2 = ''B123'', telephone2 = ''70000000'', montant2 = ''-5''\<rparr>"

text \<open>
  Responses, networks and workers to try the service workers on: a network that answers
  every request with 200, one that is down, a worker that holds the cache of version 1, and
  one that holds an older cache beside it.
\<close>

definition ok_response :: response where
  "ok_response = \<lparr>status = 200, body = ''fresh''\<rparr>"

definition old_response :: response where
  "old_response = \<lparr>status = 200, body = ''stale''\<rparr>"

definition always_ok :: "request \<Rightarrow> response option" where
  "always_ok req = Some ok_response"

definition app_origin :: string where
  "app_origin = ''https://app.example''"

definition worker_v1 :: worker where
  "worker_v1 = \<lparr>caches = [(''om-cache-v1'', [(''https://app.example/'', old_response),
                                              (''https://app.example/index.html'', old_response),
                                              (''https://app.example/main.jsx'', old_response)])],
                 waiting_skipped = True, claimed = True\<rparr>"

definition worker_v0 :: worker where
  "worker_v0 = \<lparr>caches = [(''om-cache-v0'', []), (''om-cache-v1'', [])],
                 waiting_skipped = True, claimed = False\<rparr>"

definition offline :: "request \<Rightarrow> response option" where
  "offline req = None"

definition main_jsx :: request where
  "main_jsx = \<lparr>url = ''https://app.example/main.jsx'', http_method = ''GET'', mode = ''no-cors''\<rparr>"

definition navigation :: request where
  "navigation = \<lparr>url = ''https://app.example/'', http_method = ''GET'', mode = ''navigate''\<rparr>"

text \<open>The digit 2 followed by 308 zeros, typed into the amount field.\<close>

definition huge_digits :: string where
  "huge_digits = CHR ''2'' # replicate 308 (CHR ''0'')"

definition huge_form :: form1 where
  "huge_form = \<lparr>tx_type = ''deposit'', nom_complet = ''Awa Traore'', id_document = ''B123'',
                 telephone = ''70000000'', montant = formatAmountInput huge_digits\<rparr>"

text \<open>
  \<open>marked nows r r'\<close>: \<open>r'\<close> is \<open>r\<close> marked as synchronised, that is with status
  \<^verbatim>\<open>synced\<close>, with \<^verbatim>\<open>synced_at\<close> one of the time strings \<open>nows\<close>, and with every other
  field as in \<open>r\<close>.
\<close>

definition marked :: "(nat \<Rightarrow> string) \<Rightarrow> jsobj \<Rightarrow> jsobj \<Rightarrow> bool" where
  "marked nows r r' \<longleftrightarrow>
     get_prop r' ''status'' = JStr ''synced'' \<and>
     (\<exists>j. get_prop r' ''synced_at'' = JStr (nows j)) \<and>
     (\<forall>f. f \<noteq> ''status'' \<and> f \<noteq> ''synced_at'' \<longrightarrow> get_prop r' f = get_prop r f)"

section \<open>Objects and the object store\<close>

lemma get_prop_set_prop:
  "get_prop (set_prop obj k v) f = (if f = k then v else get_prop obj f)"
  by (induction obj) (auto simp: get_prop_def)

lemma get_prop_spread:
  "get_prop (spread r p) f = (case map_of (rev p) f of Some v \<Rightarrow> v | None \<Rightarrow> get_prop r f)"
  unfolding spread_def
  by (induction p arbitrary: r) (auto simp: get_prop_set_prop split: option.splits)

lemma get_prop_spread_other:
  "f \<notin> fst ` set p \<Longrightarrow> get_prop (spread r p) f = get_prop r f"
proof -
  assume "f \<notin> fst ` set p"
  then have "map_of (rev p) f = None"
    by (simp add: map_of_eq_None_iff)
  then show ?thesis by (simp add: get_prop_spread)
qed

lemma store_get_Some_id: "store_get s k = Some r \<Longrightarrow> get_prop r ''id'' = k \<and> r \<in> set s"
  unfolding store_get_def by (induction s) (auto split: if_splits)

lemma store_get_insert_by_key:
  "store_get s (get_prop r ''id'') = None \<Longrightarrow>
   store_get (insert_by_key r s) k = (if get_prop r ''id'' = k then Some r else store_get s k)"
  by (induction s) (auto simp: store_get_def split: if_splits)

lemma store_get_replace_other:
  "get_prop r ''id'' \<noteq> k \<Longrightarrow>
   store_get (map (\<lambda>x. if get_prop x ''id'' = get_prop r ''id'' then r else x) s) k
     = store_get s k"
  by (induction s) (auto simp: store_get_def)

lemma store_get_replace_same:
  "store_get s (get_prop r ''id'') \<noteq> None \<Longrightarrow>
   store_get (map (\<lambda>x. if get_prop x ''id'' = get_prop r ''id'' then r else x) s)
     (get_prop r ''id'') = Some r"
  by (induction s) (auto simp: store_get_def)

lemma store_get_replace:
  "store_get s (get_prop r ''id'') \<noteq> None \<Longrightarrow>
   store_get (map (\<lambda>x. if get_prop x ''id'' = get_prop r ''id'' then r else x) s) k
     = (if get_prop r ''id'' = k then Some r else store_get s k)"
  using store_get_replace_other [of r k s] store_get_replace_same [of s r] by auto

lemma store_get_store_write:
  "store_get (store_write r s) k = (if get_prop r ''id'' = k then Some r else store_get s k)"
  unfolding store_write_def
  using store_get_insert_by_key [of s r k] store_get_replace [of s r k]
  by (cases "store_get s (get_prop r ''id'')") simp_all

lemma length_insert_by_key: "length (insert_by_key r s) = Suc (length s)"
  by (induction s) auto

lemma set_insert_by_key: "set (insert_by_key r s) = insert r (set s)"
  by (induction s) auto

lemma length_store_write:
  "length (store_write r s)
     = (if store_get s (get_prop r ''id'') = None then Suc (length s) else length s)"
  by (simp add: store_write_def length_insert_by_key)

lemma set_store_write_fresh:
  "store_get s (get_prop r ''id'') = None \<Longrightarrow> set (store_write r s) = insert r (set s)"
  by (simp add: store_write_def set_insert_by_key)

lemma record_A_simps:
  "get_prop record_A ''id'' = JStr ''A''" "get_prop record_A ''status'' = JStr ''pending''"
  "get_prop record_A ''montant'' = JNum 500"
  by (simp_all add: record_A_def get_prop_def)

lemma record_B_simps:
  "get_prop record_B ''id'' = JStr ''B''" "get_prop record_B ''status'' = JStr ''pending''"
  "get_prop record_B ''montant'' = JNum 70"
  by (simp_all add: record_B_def get_prop_def)

section \<open>Store operations\<close>

text \<open>
  C5. \<^verbatim>\<open>addTransaction\<close> on a record whose id is taken fails with the ConstraintError of
  \<^verbatim>\<open>store.add\<close> (the spec's AlreadyExists), is handed to the caller as the rejection, and
  leaves the store as it was. On a record whose id is fresh it resolves with the key, the
  record is the one stored under its id, and every other record is as before.
\<close>

theorem addTransaction_fresh_or_taken:
  assumes "valid_key (get_prop tx ''id'')"
  shows "(store_get s (get_prop tx ''id'') \<noteq> None \<longrightarrow>
            addTransaction tx s = (Inl ConstraintError, s)) \<and>
         (store_get s (get_prop tx ''id'') = None \<longrightarrow>
            (\<exists>s'. addTransaction tx s = (Inr (get_prop tx ''id''), s') \<and>
                  store_get s' (get_prop tx ''id'') = Some tx \<and>
                  (\<forall>k. k \<noteq> get_prop tx ''id'' \<longrightarrow> store_get s' k = store_get s k) \<and>
                  set s' = insert tx (set s) \<and> length s' = Suc (length s)))"
  using assms
  by (auto simp: addTransaction_def store_add_def store_get_store_write
                 length_store_write set_store_write_fresh)

theorem addTransaction_fresh_or_taken_witness:
  "valid_key (get_prop record_A ''id'') \<and>
   store_get [record_A] (get_prop record_A ''id'') \<noteq> None \<and>
   addTransaction record_A [record_A] = (Inl ConstraintError, [record_A]) \<and>
   store_get [record_B] (get_prop record_A ''id'') = None \<and>
   (\<exists>s'. addTransaction record_A [record_B] = (Inr (JStr ''A''), s') \<and>
         store_get s' (JStr ''A'') = Some record_A \<and>
         store_get s' (JStr ''B'') = Some record_B \<and> length s' = 2)"
proof -
  have v: "valid_key (get_prop record_A ''id'')"
    by (simp add: record_A_simps)
  have taken: "store_get [record_A] (get_prop record_A ''id'') \<noteq> None"
    by (simp add: store_get_def)
  have fresh: "store_get [record_B] (get_prop record_A ''id'') = None"
    by (simp add: store_get_def record_A_simps record_B_simps)
  have b: "store_get [record_B] (JStr ''B'') = Some record_B"
    by (simp add: store_get_def record_B_simps)
  show ?thesis
    using v taken fresh b
      addTransaction_fresh_or_taken [OF v, of "[record_A]"]
      addTransaction_fresh_or_taken [OF v, of "[record_B]"]
    by (auto simp: record_A_simps)
qed

text \<open>
  C6. \<^verbatim>\<open>updateTransaction\<close> on an id that no record has rejects with
  \<^verbatim>\<open>Error('Not found')\<close> and leaves the store as it was. On an id that a record has, it
  resolves with the spread of record and patch and stores it: a field the patch does not
  name keeps its value, a field it names takes the patch's value, and, the patch not
  naming \<^verbatim>\<open>id\<close>, the record is replaced under its id with every other record and the
  record count as before.
\<close>

theorem updateTransaction_absent_or_present:
  assumes "valid_key ident"
  shows "(store_get s ident = None \<longrightarrow>
            updateTransaction ident patch s = (Inl (Error ''Not found''), s)) \<and>
         (\<forall>old. store_get s ident = Some old
              \<and> valid_key (get_prop (spread old patch) ''id'') \<longrightarrow>
            (\<exists>s'. updateTransaction ident patch s = (Inr (spread old patch), s') \<and>
                  store_get s' (get_prop (spread old patch) ''id'')
                    = Some (spread old patch) \<and>
                  (\<forall>f. f \<notin> fst ` set patch \<longrightarrow>
                       get_prop (spread old patch) f = get_prop old f) \<and>
                  (\<forall>f v. map_of (rev patch) f = Some v \<longrightarrow>
                       get_prop (spread old patch) f = v) \<and>
                  (''id'' \<notin> fst ` set patch \<longrightarrow>
                     store_get s' ident = Some (spread old patch) \<and>
                     (\<forall>k. k \<noteq> ident \<longrightarrow> store_get s' k = store_get s k) \<and>
                     length s' = length s)))"
proof (intro conjI impI allI)
  assume "store_get s ident = None"
  then show "updateTransaction ident patch s = (Inl (Error ''Not found''), s)"
    using assms by (simp add: updateTransaction_def)
next
  fix old
  assume h: "store_get s ident = Some old \<and> valid_key (get_prop (spread old patch) ''id'')"
  let ?u = "spread old patch"
  have upd: "updateTransaction ident patch s = (Inr ?u, store_write ?u s)"
    using assms h by (simp add: updateTransaction_def store_put_def Let_def)
  have rid: "get_prop old ''id'' = ident"
    using h store_get_Some_id by blast
  have keep: "''id'' \<notin> fst ` set patch \<Longrightarrow> get_prop ?u ''id'' = ident"
    using rid by (simp add: get_prop_spread_other)
  have inplace: "''id'' \<notin> fst ` set patch \<Longrightarrow> length (store_write ?u s) = length s"
    using keep h by (simp add: length_store_write)
  have same: "\<forall>f. f \<notin> fst ` set patch \<longrightarrow> get_prop ?u f = get_prop old f"
    by (simp add: get_prop_spread_other)
  have named: "\<forall>f v. map_of (rev patch) f = Some v \<longrightarrow> get_prop ?u f = v"
    by (simp add: get_prop_spread)
  have stored: "store_get (store_write ?u s) (get_prop ?u ''id'') = Some ?u"
    by (simp add: store_get_store_write)
  have others: "''id'' \<notin> fst ` set patch \<Longrightarrow>
      store_get (store_write ?u s) ident = Some ?u \<and>
      (\<forall>k. k \<noteq> ident \<longrightarrow> store_get (store_write ?u s) k = store_get s k)"
    using keep by (simp add: store_get_store_write)
  show "\<exists>s'. updateTransaction ident patch s = (Inr ?u, s') \<and>
          store_get s' (get_prop ?u ''id'') = Some ?u \<and>
          (\<forall>f. f \<notin> fst ` set patch \<longrightarrow> get_prop ?u f = get_prop old f) \<and>
          (\<forall>f v. map_of (rev patch) f = Some v \<longrightarrow> get_prop ?u f = v) \<and>
          (''id'' \<notin> fst ` set patch \<longrightarrow>
             store_get s' ident = Some ?u \<and>
             (\<forall>k. k \<noteq> ident \<longrightarrow> store_get s' k = store_get s k) \<and>
             length s' = length s)"
    using upd same named stored others inplace by blast
qed


theorem updateTransaction_absent_or_present_witness:
  "valid_key (JStr ''A'') \<and>
   store_get [record_B] (JStr ''A'') = None \<and>
   updateTransaction (JStr ''A'') [(''status'', JStr ''synced'')] [record_B]
     = (Inl (Error ''Not found''), [record_B]) \<and>
   store_get [record_A, record_B] (JStr ''A'') = Some record_A \<and>
   (\<exists>s'. updateTransaction (JStr ''A'') [(''status'', JStr ''synced'')] [record_A, record_B]
           = (Inr (spread record_A [(''status'', JStr ''synced'')]), s') \<and>
         get_prop (spread record_A [(''status'', JStr ''synced'')]) ''status'' = JStr ''synced'' \<and>
         get_prop (spread record_A [(''status'', JStr ''synced'')]) ''montant'' = JNum 500 \<and>
         store_get s' (JStr ''B'') = Some record_B \<and> length s' = 2)"
proof -
  have v: "valid_key (JStr ''A'')" by simp
  have absent: "store_get [record_B] (JStr ''A'') = None"
    by (simp add: store_get_def record_B_simps)
  have present: "store_get [record_A, record_B] (JStr ''A'') = Some record_A"
    by (simp add: store_get_def record_A_simps)
  have b: "store_get [record_A, record_B] (JStr ''B'') = Some record_B"
    by (simp add: store_get_def record_A_simps record_B_simps)
  have k: "valid_key (get_prop (spread record_A [(''status'', JStr ''synced'')]) ''id'')"
    by (simp add: get_prop_spread record_A_simps)
  show ?thesis
    using v absent present b k
      updateTransaction_absent_or_present [OF v, of "[record_B]" "[(''status'', JStr ''synced'')]"]
      updateTransaction_absent_or_present
        [OF v, of "[record_A, record_B]" "[(''status'', JStr ''synced'')]"]
    by (auto simp: record_A_simps get_prop_spread)
qed

section \<open>Marking records as synchronised\<close>

lemma trySync_start_db: "db (snd (trySync_start snapshot w)) = db w"
  by (simp add: trySync_start_def Let_def)

lemma db_loadTransactions: "db (loadTransactions dateOf w) = db w"
  by (simp add: loadTransactions_def)

lemma snd_update_all_Cons:
  "snd (update_all nows i (ident # ids) s)
     = snd (update_all nows (Suc i) ids
         (snd (updateTransaction ident
                 [(''status'', JStr ''synced''), (''synced_at'', JStr (nows i))] s)))"
  by (auto split: prod.splits sum.splits)

lemma updateTransaction_present:
  assumes "store_get s ident = Some r" and "valid_key ident" and "''id'' \<notin> fst ` set patch"
  shows "get_prop (spread r patch) ''id'' = ident"
    and "updateTransaction ident patch s = (Inr (spread r patch), store_write (spread r patch) s)"
proof -
  have "get_prop r ''id'' = ident" using assms(1) store_get_Some_id by blast
  then show key: "get_prop (spread r patch) ''id'' = ident"
    using assms(3) by (simp add: get_prop_spread_other)
  show "updateTransaction ident patch s = (Inr (spread r patch), store_write (spread r patch) s)"
    using assms(1,2) key by (simp add: updateTransaction_def store_put_def Let_def)
qed

lemma store_get_updateTransaction:
  assumes "''id'' \<notin> fst ` set patch"
  shows "store_get (snd (updateTransaction ident patch s)) k
           = (if k = ident \<and> valid_key ident
              then map_option (\<lambda>r. spread r patch) (store_get s k)
              else store_get s k)"
proof (cases "valid_key ident")
  case False
  then show ?thesis by (simp add: updateTransaction_def)
next
  case True
  show ?thesis
  proof (cases "store_get s ident")
    case None
    then show ?thesis using True by (auto simp: updateTransaction_def)
  next
    case (Some r)
    show ?thesis
      using updateTransaction_present [OF Some True assms] True Some
      by (auto simp: store_get_store_write)
  qed
qed

lemma length_updateTransaction:
  assumes "''id'' \<notin> fst ` set patch"
  shows "length (snd (updateTransaction ident patch s)) = length s"
proof (cases "valid_key ident")
  case False
  then show ?thesis by (simp add: updateTransaction_def)
next
  case True
  show ?thesis
  proof (cases "store_get s ident")
    case None
    then show ?thesis by (simp add: updateTransaction_def)
  next
    case (Some r)
    show ?thesis
      using updateTransaction_present [OF Some True assms] Some
      by (simp add: length_store_write)
  qed
qed

lemma length_update_all: "length (snd (update_all nows i ids s)) = length s"
proof (induction ids arbitrary: i s)
  case Nil
  then show ?case by simp
next
  case (Cons ident ids)
  show ?case
    unfolding snd_update_all_Cons by (simp add: Cons.IH length_updateTransaction)
qed

lemma update_all_untouched:
  "k \<notin> set ids \<Longrightarrow> store_get (snd (update_all nows i ids s)) k = store_get s k"
proof (induction ids arbitrary: i s)
  case Nil
  then show ?case by simp
next
  case (Cons ident ids)
  then have "k \<noteq> ident" and "k \<notin> set ids" by auto
  then show ?case
    unfolding snd_update_all_Cons by (simp add: Cons.IH store_get_updateTransaction)
qed

lemma marked_first:
  "marked nows r (spread r [(''status'', JStr ''synced''), (''synced_at'', JStr (nows i))])"
  by (auto simp: marked_def get_prop_spread)

lemma marked_again:
  "marked nows r r1 \<Longrightarrow>
   marked nows r (spread r1 [(''status'', JStr ''synced''), (''synced_at'', JStr (nows i))])"
  by (auto simp: marked_def get_prop_spread)

lemma update_all_touched:
  "valid_key k \<Longrightarrow> store_get s k = Some r1 \<Longrightarrow>
   marked nows r r1 \<or> (r1 = r \<and> k \<in> set ids) \<Longrightarrow>
   \<exists>r'. store_get (snd (update_all nows i ids s)) k = Some r' \<and> marked nows r r'"
proof (induction ids arbitrary: i s r1)
  case Nil
  then show ?case by simp
next
  case (Cons ident ids)
  let ?p = "[(''status'', JStr ''synced''), (''synced_at'', JStr (nows i))]"
  let ?s = "snd (updateTransaction ident ?p s)"
  show ?case
  proof (cases "k = ident")
    case True
    have g: "store_get ?s k = Some (spread r1 ?p)"
      using True Cons.prems(1,2) by (simp add: store_get_updateTransaction)
    have m: "marked nows r (spread r1 ?p)"
      using Cons.prems(3) marked_first marked_again by blast
    show ?thesis
      unfolding snd_update_all_Cons using Cons.IH [OF Cons.prems(1) g] m by blast
  next
    case False
    have g: "store_get ?s k = Some r1"
      using False Cons.prems(2) by (simp add: store_get_updateTransaction)
    have m: "marked nows r r1 \<or> (r1 = r \<and> k \<in> set ids)"
      using False Cons.prems(3) by auto
    show ?thesis
      unfolding snd_update_all_Cons using Cons.IH [OF Cons.prems(1) g m] by blast
  qed
qed

lemma db_trySync_finish:
  "db (trySync_finish dateOf nows (Resolved (Some res)) w)
     = (if ok res then snd (update_all nows 0 (syncedIds res) (db w)) else db w)"
  by (auto simp: trySync_finish_def db_loadTransactions split: prod.splits list.splits)

lemma trySync_start_worldAB:
  "trySync_start [record_A, record_B] worldAB
     = (Some [record_A, record_B],
        worldAB\<lparr>trySync_calls := 1, syncing := True, sent := [[record_A, record_B]]\<rparr>)"
  by (simp add: trySync_start_def worldAB_def world0_def record_A_simps record_B_simps Let_def)

lemma store_get_AB:
  "store_get [record_A, record_B] (JStr ''A'') = Some record_A"
  "store_get [record_A, record_B] (JStr ''B'') = Some record_B"
  by (simp_all add: store_get_def record_A_simps record_B_simps)

lemma db_worldAB: "db worldAB = [record_A, record_B]"
  by (simp add: worldAB_def)

section \<open>The synchronisation cycle\<close>

text \<open>
  C4. A cycle that has submitted a batch and whose transport resolves with \<open>ok\<close> and a
  subset of the submitted ids: every accepted id that is the key of a stored record has
  that record marked (status \<^verbatim>\<open>synced\<close>, \<^verbatim>\<open>synced_at\<close> set, every other field as before),
  and the record under any id that was not accepted is exactly as before, so a pending one
  stays pending. The record count does not change.
\<close>

theorem trySync_finish_accepted_only:
  assumes "trySync_start snapshot w = (Some batch, w1)" and "ok res"
    and "set (syncedIds res) \<subseteq> (\<lambda>t. get_prop t ''id'') ` set batch"
  shows "(\<forall>k r. k \<in> set (syncedIds res) \<and> valid_key k \<and> store_get (db w) k = Some r \<longrightarrow>
            (\<exists>r'. store_get (db (trySync_finish dateOf nows (Resolved (Some res)) w1)) k = Some r'
                  \<and> marked nows r r')) \<and>
         (\<forall>k. k \<notin> set (syncedIds res) \<longrightarrow>
            store_get (db (trySync_finish dateOf nows (Resolved (Some res)) w1)) k
              = store_get (db w) k) \<and>
         length (db (trySync_finish dateOf nows (Resolved (Some res)) w1)) = length (db w)"
proof -
  have d: "db w1 = db w"
    using assms(1) trySync_start_db [of snapshot w] by simp
  have f: "db (trySync_finish dateOf nows (Resolved (Some res)) w1)
             = snd (update_all nows 0 (syncedIds res) (db w))"
    using assms(2) d by (simp add: db_trySync_finish)
  show ?thesis
    unfolding f
    by (auto simp: update_all_untouched length_update_all intro: update_all_touched)
qed


theorem trySync_finish_accepted_only_witness:
  "trySync_start [record_A, record_B] worldAB
     = (Some [record_A, record_B],
        worldAB\<lparr>trySync_calls := 1, syncing := True, sent := [[record_A, record_B]]\<rparr>) \<and>
   ok accept_A \<and>
   set (syncedIds accept_A) \<subseteq> (\<lambda>t. get_prop t ''id'') ` set [record_A, record_B] \<and>
   (\<exists>r'. store_get (db (trySync_finish (\<lambda>v. None) (\<lambda>i. ''now'') (Resolved (Some accept_A))
            (worldAB\<lparr>trySync_calls := 1, syncing := True, sent := [[record_A, record_B]]\<rparr>)))
          (JStr ''A'') = Some r' \<and>
         get_prop r' ''status'' = JStr ''synced'' \<and> get_prop r' ''synced_at'' = JStr ''now'') \<and>
   store_get (db (trySync_finish (\<lambda>v. None) (\<lambda>i. ''now'') (Resolved (Some accept_A))
            (worldAB\<lparr>trySync_calls := 1, syncing := True, sent := [[record_A, record_B]]\<rparr>)))
      (JStr ''B'') = Some record_B \<and>
   get_prop record_B ''status'' = JStr ''pending''"
proof -
  let ?w1 = "worldAB\<lparr>trySync_calls := 1, syncing := True, sent := [[record_A, record_B]]\<rparr>"
  have ok: "ok accept_A" by (simp add: accept_A_def)
  have sub: "set (syncedIds accept_A) \<subseteq> (\<lambda>t. get_prop t ''id'') ` set [record_A, record_B]"
    by (simp add: accept_A_def record_A_simps)
  have ids: "JStr ''A'' \<in> set (syncedIds accept_A)" "JStr ''B'' \<notin> set (syncedIds accept_A)"
    by (simp_all add: accept_A_def)
  note t = trySync_finish_accepted_only
             [OF trySync_start_worldAB ok sub, of "\<lambda>v. None" "\<lambda>i. ''now''"]
  have "\<exists>r'. store_get (db (trySync_finish (\<lambda>v. None) (\<lambda>i. ''now'') (Resolved (Some accept_A)) ?w1))
                (JStr ''A'') = Some r' \<and> marked (\<lambda>i. ''now'') record_A r'"
    using t ids(1) store_get_AB(1) by (simp add: db_worldAB)
  then have a: "\<exists>r'. store_get (db (trySync_finish (\<lambda>v. None) (\<lambda>i. ''now'')
                        (Resolved (Some accept_A)) ?w1)) (JStr ''A'') = Some r' \<and>
                    get_prop r' ''status'' = JStr ''synced'' \<and>
                    get_prop r' ''synced_at'' = JStr ''now''"
    by (auto simp: marked_def)
  have b: "store_get (db (trySync_finish (\<lambda>v. None) (\<lambda>i. ''now'') (Resolved (Some accept_A)) ?w1))
             (JStr ''B'') = Some record_B"
    using t ids(2) store_get_AB(2) by (simp add: db_worldAB)
  show ?thesis
    using trySync_start_worldAB ok sub a b by (simp add: record_B_simps)
qed

lemma filter_is_pending:
  "filter (\<lambda>t. get_prop t ''status'' = JStr ''pending'') xs = filter is_pending xs"
  by (simp add: is_pending_def [abs_def])

lemma is_pending_samples: "is_pending record_A" "is_pending record_B"
  by (simp_all add: is_pending_def record_A_simps record_B_simps)

lemma sent_loadTransactions: "sent (loadTransactions dateOf w) = sent w"
  by (simp add: loadTransactions_def)

lemma sent_trySync_finish: "sent (trySync_finish dateOf nows r w) = sent w"
  by (auto simp: trySync_finish_def sent_loadTransactions
           split: reply.splits option.splits prod.splits list.splits)

lemma trySync_start_cases:
  "trySync_start snapshot w =
     (if filter is_pending snapshot = []
      then (None, w\<lparr>trySync_calls := Suc (trySync_calls w), syncing := False\<rparr>)
      else (Some (filter is_pending snapshot),
            w\<lparr>trySync_calls := Suc (trySync_calls w), syncing := True,
              sent := sent w @ [filter is_pending snapshot]\<rparr>))"
  by (simp add: trySync_start_def Let_def filter_is_pending)

lemma db_trySync:
  "db (trySync dateOf nows snapshot w) =
     (if filter is_pending snapshot = [] then db w
      else snd (update_all nows 0 (map (\<lambda>b. get_prop b ''id'') (filter is_pending snapshot)) (db w)))"
  by (simp add: trySync_def trySync_start_cases db_trySync_finish fakeSendToServer_def)

text \<open>
  C3, as the code has it. A call of \<^verbatim>\<open>trySync\<close> filters the \<^verbatim>\<open>transactions\<close> array of
  its closure, the list last loaded onto the screen, for the pending records; the store is
  not read. When none is pending the call returns through \<^verbatim>\<open>finally\<close> without a transport
  call, having changed nothing but the call count and the \<^verbatim>\<open>syncing\<close> flag; otherwise the
  one batch it hands to the transport is that filtered array.
\<close>

theorem trySync_filters_snapshot:
  "fst (trySync_start snapshot w)
     = (if filter is_pending snapshot = [] then None else Some (filter is_pending snapshot)) \<and>
   sent (trySync dateOf nows snapshot w)
     = (if filter is_pending snapshot = [] then sent w
        else sent w @ [filter is_pending snapshot]) \<and>
   (filter is_pending snapshot = [] \<longrightarrow>
      trySync dateOf nows snapshot w
        = w\<lparr>trySync_calls := Suc (trySync_calls w), syncing := False\<rparr>)"
  by (simp add: trySync_def trySync_start_cases sent_trySync_finish)

theorem trySync_filters_snapshot_witness:
  "filter is_pending [spread record_A [(''status'', JStr ''synced'')]] = [] \<and>
   trySync no_date fixed_now [spread record_A [(''status'', JStr ''synced'')]] world_A
     = world_A\<lparr>trySync_calls := 1, syncing := False\<rparr> \<and>
   sent (trySync no_date fixed_now [record_A] world_A) = [[record_A]]"
proof -
  have e: "filter is_pending [spread record_A [(''status'', JStr ''synced'')]] = []"
    by (simp add: is_pending_def get_prop_spread)
  have p: "filter is_pending [record_A] = [record_A]"
    by (simp add: is_pending_samples)
  have c: "trySync_calls world_A = 0" "sent world_A = []"
    by (simp_all add: world_A_def world0_def)
  show ?thesis
    using e p c 
      trySync_filters_snapshot [of "[spread record_A [(''status'', JStr ''synced'')]]" world_A no_date fixed_now]
      trySync_filters_snapshot [of "[record_A]" world_A no_date fixed_now]
    by simp
qed

text \<open>
  Submitting the filled form in the empty world: the record is stored and loaded, and the
  \<^verbatim>\<open>trySync\<close> of the closure, whose \<^verbatim>\<open>transactions\<close> is still the empty list, sends nothing.
\<close>

lemma handleSubmit_world0:
  "handleSubmit no_date ''u-1'' ''2025-01-01T00:00:00.000Z'' fixed_now filled_form [] world0
     = world0\<lparr>db := [new_transaction ''u-1'' ''2025-01-01T00:00:00.000Z'' filled_form],
              transactions := [new_transaction ''u-1'' ''2025-01-01T00:00:00.000Z'' filled_form],
              trySync_calls := 1,
              notification := Some (''Transaction enregistree.'', ''success'')\<rparr>"
  by (simp add: handleSubmit_def filled_form_def world0_def addTransaction_def store_add_def
        new_transaction_def get_prop_def store_get_def store_write_def loadTransactions_def
        getAllTransactions_def js_sort_def trySync_def trySync_start_def showNotification_def
        blank_form_def Let_def)

text \<open>
  C3 as stated fails. The store holds record A as synchronised, so that no stored record
  is pending, and a closure whose list still shows A as pending calls the transport with
  it. And after a form submission in the empty world the store holds a pending record
  while the \<^verbatim>\<open>trySync\<close> that the handler has called has sent nothing.
\<close>

theorem trySync_store_counterexample:
  "filter is_pending (getAllTransactions (db world_synced)) = [] \<and>
   sent world_synced = [] \<and>
   sent (trySync no_date fixed_now [record_A] world_synced) = [[record_A]] \<and>
   filter is_pending (getAllTransactions
      (db (handleSubmit no_date ''u-1'' ''2025-01-01T00:00:00.000Z'' fixed_now filled_form [] world0)))
     = [new_transaction ''u-1'' ''2025-01-01T00:00:00.000Z'' filled_form] \<and>
   trySync_calls
      (handleSubmit no_date ''u-1'' ''2025-01-01T00:00:00.000Z'' fixed_now filled_form [] world0) = 1 \<and>
   sent (handleSubmit no_date ''u-1'' ''2025-01-01T00:00:00.000Z'' fixed_now filled_form [] world0) = []"
proof -
  have a: "filter is_pending (getAllTransactions (db world_synced)) = []"
    by (simp add: world_synced_def world0_def getAllTransactions_def is_pending_def
          record_A_synced_def get_prop_def)
  have e: "sent world_synced = []"
    by (simp add: world_synced_def world0_def)
  have b: "sent (trySync no_date fixed_now [record_A] world_synced) = [[record_A]]"
    using e
    by (simp add: trySync_def trySync_start_cases sent_trySync_finish is_pending_samples)
  have c: "is_pending (new_transaction ''u-1'' ''2025-01-01T00:00:00.000Z'' filled_form)"
    by (simp add: is_pending_def new_transaction_def get_prop_def)
  have d: "sent world0 = []" "trySync_calls world0 = 0"
    by (simp_all add: world0_def)
  show ?thesis
    using a e b c d by (simp add: handleSubmit_world0 getAllTransactions_def)
qed

text \<open>
  C1, as the code has it. \<^verbatim>\<open>trySync\<close> writes the \<^verbatim>\<open>syncing\<close> flag and never reads it: a
  call that starts while another is suspended at the transport runs like any other. Of
  two calls started one after the other, each hands its filtered snapshot to the
  transport when that is not empty, so both do when both have a pending record. What the
  flag does is disable the button: a click on a render that shows \<^verbatim>\<open>syncing\<close>, or offline,
  does nothing.
\<close>

theorem trySync_start_not_guarded:
  "sent (snd (trySync_start s2 (snd (trySync_start s1 w))))
     = sent w @ (if filter is_pending s1 = [] then [] else [filter is_pending s1])
              @ (if filter is_pending s2 = [] then [] else [filter is_pending s2]) \<and>
   trySync_calls (snd (trySync_start s2 (snd (trySync_start s1 w)))) = trySync_calls w + 2 \<and>
   trySync_start s1 (w\<lparr>syncing := b\<rparr>) = trySync_start s1 w \<and>
   (\<not> online r \<or> syncing r \<longrightarrow> click_forceSync dateOf nows r w = w)"
  by (simp add: trySync_start_cases click_forceSync_def)

theorem trySync_start_not_guarded_witness:
  "sent (snd (trySync_start [record_A] (snd (trySync_start [record_A] world_A))))
     = [[record_A], [record_A]] \<and>
   syncing (snd (trySync_start [record_A] world_A)) \<and>
   click_forceSync no_date fixed_now (snd (trySync_start [record_A] world_A))
       (snd (trySync_start [record_A] world_A))
     = snd (trySync_start [record_A] world_A)"
proof -
  have p: "filter is_pending [record_A] = [record_A]"
    by (simp add: is_pending_samples)
  have s: "syncing (snd (trySync_start [record_A] world_A))"
    by (simp add: trySync_start_cases is_pending_samples)
  have e: "sent world_A = []"
    by (simp add: world_A_def world0_def)
  show ?thesis
    using p s e
      trySync_start_not_guarded [of "[record_A]" "[record_A]" world_A False
         "snd (trySync_start [record_A] world_A)" no_date fixed_now]
      trySync_start_not_guarded [of "[record_A]" "[record_A]"
         "snd (trySync_start [record_A] world_A)" False
         "snd (trySync_start [record_A] world_A)" no_date fixed_now]
    by simp
qed

text \<open>
  C1 as stated fails: the first call is suspended at the transport with \<^verbatim>\<open>syncing\<close> set,
  the second submits the same batch again, and the transport has been called twice.
\<close>

theorem trySync_overlap_counterexample:
  "fst (trySync_start [record_A] world_A) = Some [record_A] \<and>
   syncing (snd (trySync_start [record_A] world_A)) \<and>
   fst (trySync_start [record_A] (snd (trySync_start [record_A] world_A))) = Some [record_A] \<and>
   sent world_A = [] \<and>
   sent (snd (trySync_start [record_A] (snd (trySync_start [record_A] world_A))))
     = [[record_A], [record_A]]"
  by (simp add: trySync_start_cases is_pending_samples world_A_def world0_def)

section \<open>Connectivity events\<close>

lemma connectivity_frame:
  "trySync_calls (connectivity e w) = trySync_calls w \<and> sent (connectivity e w) = sent w \<and>
   db (connectivity e w) = db w \<and> transactions (connectivity e w) = transactions w \<and>
   syncing (connectivity e w) = syncing w"
  by (cases e) (simp_all add: onOnline_def onOffline_def)

text \<open>
  C2, as the code has it. The \<^verbatim>\<open>online\<close> listener sets the \<^verbatim>\<open>online\<close> state and does
  nothing else. Over any sequence of connectivity events \<^verbatim>\<open>trySync\<close> is never entered and
  the transport never called; the store, the list and the \<^verbatim>\<open>syncing\<close> flag stay as they
  are.
\<close>

theorem connectivity_never_syncs:
  "onOnline w = w\<lparr>online := True\<rparr> \<and>
   trySync_calls (fold connectivity evs w) = trySync_calls w \<and>
   sent (fold connectivity evs w) = sent w \<and>
   db (fold connectivity evs w) = db w \<and>
   transactions (fold connectivity evs w) = transactions w \<and>
   syncing (fold connectivity evs w) = syncing w"
proof (induction evs arbitrary: w)
  case Nil
  then show ?case by (simp add: onOnline_def)
next
  case (Cons e evs)
  show ?case
    using Cons.IH [of "connectivity e w"] connectivity_frame [of e w]
    by (simp add: onOnline_def)
qed

theorem connectivity_never_syncs_witness:
  "online (fold connectivity [GoOnline] world_offline) \<and>
   trySync_calls (fold connectivity [GoOffline, GoOnline] world_offline) = 0 \<and>
   sent (fold connectivity [GoOffline, GoOnline] world_offline) = []"
  using connectivity_never_syncs [of world_offline "[GoOffline, GoOnline]"]
  by (simp add: world_offline_def worldAB_def world0_def onOnline_def)

text \<open>
  C2 as stated fails: the world goes from offline to online with two pending records on
  screen, and \<^verbatim>\<open>trySync\<close> has not been entered.
\<close>

theorem onOnline_counterexample:
  "\<not> online world_offline \<and>
   filter is_pending (transactions world_offline) = [record_A, record_B] \<and>
   online (connectivity GoOnline world_offline) \<and>
   navigator_onLine (connectivity GoOnline world_offline) \<and>
   trySync_calls world_offline = 0 \<and>
   trySync_calls (connectivity GoOnline world_offline) = 0 \<and>
   sent (connectivity GoOnline world_offline) = []"
  by (simp add: world_offline_def worldAB_def world0_def onOnline_def is_pending_samples)

section \<open>The stub transport\<close>

text \<open>
  C10. \<^verbatim>\<open>fakeSendToServer\<close> resolves, for every batch, with \<open>ok\<close> and with the ids of the
  batch, one for each record and in order. So in a call of \<^verbatim>\<open>trySync\<close> that nothing
  interleaves with, every pending record of the snapshot whose id is the key of a stored
  record has that stored record marked as synchronised.
\<close>

theorem fakeSendToServer_accepts_all:
  "ok (fakeSendToServer batch) \<and>
   syncedIds (fakeSendToServer batch) = map (\<lambda>b. get_prop b ''id'') batch \<and>
   (\<forall>t r. t \<in> set snapshot \<and> is_pending t \<and> valid_key (get_prop t ''id'')
            \<and> store_get (db w) (get_prop t ''id'') = Some r \<longrightarrow>
       (\<exists>r'. store_get (db (trySync dateOf nows snapshot w)) (get_prop t ''id'') = Some r'
             \<and> marked nows r r'))"
proof (intro conjI allI impI)
  show "ok (fakeSendToServer batch)" by (simp add: fakeSendToServer_def)
  show "syncedIds (fakeSendToServer batch) = map (\<lambda>b. get_prop b ''id'') batch"
    by (simp add: fakeSendToServer_def)
next
  fix t r
  assume h: "t \<in> set snapshot \<and> is_pending t \<and> valid_key (get_prop t ''id'')
               \<and> store_get (db w) (get_prop t ''id'') = Some r"
  then have ne: "filter is_pending snapshot \<noteq> []"
    by (auto simp: filter_empty_conv)
  have mem: "get_prop t ''id'' \<in> set (map (\<lambda>b. get_prop b ''id'') (filter is_pending snapshot))"
    using h by auto
  have v: "valid_key (get_prop t ''id'')" and g: "store_get (db w) (get_prop t ''id'') = Some r"
    using h by simp_all
  show "\<exists>r'. store_get (db (trySync dateOf nows snapshot w)) (get_prop t ''id'') = Some r'
             \<and> marked nows r r'"
    using update_all_touched [OF v g, of nows r _ 0] mem ne
    by (simp add: db_trySync)
qed

theorem fakeSendToServer_accepts_all_witness:
  "ok (fakeSendToServer [record_A, record_B]) \<and>
   syncedIds (fakeSendToServer [record_A, record_B]) = [JStr ''A'', JStr ''B''] \<and>
   record_B \<in> set [record_A, record_B] \<and> is_pending record_B \<and>
   valid_key (get_prop record_B ''id'') \<and>
   store_get (db worldAB) (get_prop record_B ''id'') = Some record_B \<and>
   (\<exists>r'. store_get (db (trySync no_date fixed_now [record_A, record_B] worldAB)) (JStr ''B'')
            = Some r' \<and>
         get_prop r' ''status'' = JStr ''synced'' \<and> get_prop r' ''montant'' = JNum 70)"
proof -
  have h: "record_B \<in> set [record_A, record_B] \<and> is_pending record_B \<and>
           valid_key (get_prop record_B ''id'') \<and>
           store_get (db worldAB) (get_prop record_B ''id'') = Some record_B"
    by (simp add: is_pending_samples record_B_simps db_worldAB store_get_AB)
  note t = fakeSendToServer_accepts_all
             [of "[record_A, record_B]" "[record_A, record_B]" worldAB no_date fixed_now]
  have t1: "ok (fakeSendToServer [record_A, record_B])"
    and t2: "syncedIds (fakeSendToServer [record_A, record_B])
               = map (\<lambda>b. get_prop b ''id'') [record_A, record_B]"
    using t by blast+
  have "\<exists>r'. store_get (db (trySync no_date fixed_now [record_A, record_B] worldAB))
                (get_prop record_B ''id'') = Some r' \<and> marked fixed_now record_B r'"
    using t h by blast
  then obtain r' where
    g: "store_get (db (trySync no_date fixed_now [record_A, record_B] worldAB))
          (get_prop record_B ''id'') = Some r'"
    and mk: "marked fixed_now record_B r'"
    by blast
  have st: "get_prop r' ''status'' = JStr ''synced''"
    using mk by (simp add: marked_def)
  have "get_prop r' ''montant'' = get_prop record_B ''montant''"
    using mk unfolding marked_def by simp
  then have mo: "get_prop r' ''montant'' = JNum 70"
    by (simp add: record_B_simps)
  have m: "\<exists>r'. store_get (db (trySync no_date fixed_now [record_A, record_B] worldAB))
                  (JStr ''B'') = Some r' \<and>
                get_prop r' ''status'' = JStr ''synced'' \<and> get_prop r' ''montant'' = JNum 70"
    using g st mo by (simp add: record_B_simps)
  have t2': "syncedIds (fakeSendToServer [record_A, record_B]) = [JStr ''A'', JStr ''B'']"
    using t2 by (simp add: record_A_simps record_B_simps)
  show ?thesis
    using t1 t2' h m by blast
qed

section \<open>Number values\<close>

text \<open>
  What \<open>to_number\<close> gives: an integer below \<open>2 ^ 53\<close> is kept, the Number value of a
  natural number is a natural number or Infinity, a tie goes to the even mantissa, and
  the value is Infinity from \<open>2 ^ 1024\<close> on and zero below \<open>2 ^ -1075\<close>.
\<close>

lemma pow2_pos: "0 < pow2 e"
  by (simp add: pow2_def)

lemma exp_up_le: "exp_up q e \<le> e"
proof (induction q e rule: exp_up.induct)
  case (1 q e)
  show ?case
  proof (cases "q < 2 ^ 52 \<and> - 1074 < e")
    case True
    then have "exp_up (2 * q) (e - 1) \<le> e - 1" using "1.IH" by blast
    moreover have "exp_up q e = exp_up (2 * q) (e - 1)"
      using True by (subst exp_up.simps) auto
    ultimately show ?thesis by simp
  next
    case False
    then have "exp_up q e = e" by (subst exp_up.simps) auto
    then show ?thesis by simp
  qed
qed

lemma exp_down_steps:
  "2 ^ 52 \<le> q \<Longrightarrow>
   \<exists>k. exp_down q e = e + int k \<and> 2 ^ 52 \<le> q / 2 ^ k \<and> q / 2 ^ k < 2 ^ 53"
proof (induction q e rule: exp_down.induct)
  case (1 q e)
  show ?case
  proof (cases "2 ^ 53 \<le> q")
    case True
    then have "2 ^ 52 \<le> q / 2" by simp
    from "1.IH" [OF True this] obtain k where
      k: "exp_down (q / 2) (e + 1) = e + 1 + int k"
         "2 ^ 52 \<le> q / 2 / 2 ^ k" "q / 2 / 2 ^ k < 2 ^ 53"
      by blast
    have "exp_down q e = exp_down (q / 2) (e + 1)"
      using True by (subst exp_down.simps) auto
    then have e: "exp_down q e = e + int (Suc k)"
      using k(1) by simp
    have "q / 2 ^ Suc k = q / 2 / 2 ^ k" by simp
    then show ?thesis using e k(2,3) by metis
  next
    case False
    then have "exp_down q e = e + int 0" by (subst exp_down.simps) auto
    moreover have "2 ^ 52 \<le> q / 2 ^ 0" "q / 2 ^ 0 < 2 ^ 53"
      using False "1.prems" by simp_all
    ultimately show ?thesis by blast
  qed
qed

lemma pow2_nonpos: "pow2 (- int k) = 1 / 2 ^ k"
  by (cases "k = 0") (simp_all add: pow2_def)

lemma pow2_nonneg: "pow2 (int k) = 2 ^ k"
  by (simp add: pow2_def)

lemma round_at_exact:
  assumes "q / pow2 e = of_int M"
  shows "round_at q e = q"
proof -
  have "of_int M * pow2 e = q"
    using assms pow2_pos [of e] by (simp add: field_simps)
  then show ?thesis
    by (simp add: round_at_def Let_def assms)
qed

lemma round_at_lower:
  assumes "of_int L \<le> q / pow2 e"
  shows "of_int L * pow2 e \<le> round_at q e"
proof -
  have "L \<le> \<lfloor>q / pow2 e\<rfloor>" using assms by (simp only: le_floor_iff)
  then have "(of_int L :: rat) \<le> of_int \<lfloor>q / pow2 e\<rfloor>" by simp
  then have "of_int L * pow2 e \<le> of_int \<lfloor>q / pow2 e\<rfloor> * pow2 e"
    using pow2_pos [of e] by (simp add: mult_right_mono less_imp_le)
  moreover have "of_int \<lfloor>q / pow2 e\<rfloor> * pow2 e \<le> round_at q e"
    using pow2_pos [of e] by (simp add: round_at_def Let_def mult_right_mono less_imp_le)
  ultimately show ?thesis by linarith
qed

lemma round_at_natural:
  assumes "0 \<le> q"
  shows "\<exists>r :: nat. round_at q (int k) = of_nat (r * 2 ^ k)"
proof -
  define m where "m = q / pow2 (int k)"
  define r where "r = (if 1 / 2 < m - of_int \<lfloor>m\<rfloor> \<or> (m - of_int \<lfloor>m\<rfloor> = 1 / 2 \<and> odd \<lfloor>m\<rfloor>)
                       then \<lfloor>m\<rfloor> + 1 else \<lfloor>m\<rfloor>)"
  have "0 \<le> m" using assms by (simp add: m_def pow2_nonneg)
  then have "0 \<le> \<lfloor>m\<rfloor>" by simp
  then have rpos: "0 \<le> r" by (simp add: r_def)
  have "round_at q (int k) = of_int r * 2 ^ k"
    by (simp add: round_at_def Let_def m_def r_def pow2_nonneg)
  also have "\<dots> = of_nat (nat r * 2 ^ k)" using rpos by simp
  finally show ?thesis by blast
qed

lemma to_number_exact:
  assumes "n < 2 ^ 53"
  shows "to_number (of_nat n) = JNum (of_nat n)"
proof (cases "n = 0")
  case True
  then show ?thesis by (simp add: to_number_def)
next
  case False
  let ?q = "of_nat n :: rat"
  have pos: "\<not> ?q \<le> 0" using False by simp
  have "?q < of_nat (2 ^ 53)" using assms by (simp only: of_nat_less_iff)
  then have small: "\<not> 2 ^ 53 \<le> ?q" by simp
  define k where "k = nat (- exp_up ?q 0)"
  have e: "binary_exponent ?q = - int k"
    using exp_up_le [of ?q 0] small by (simp add: k_def binary_exponent_def)
  have "?q / pow2 (- int k) = of_int (int (n * 2 ^ k))"
    by (simp add: pow2_nonpos)
  then have r: "round_at ?q (- int k) = ?q" by (rule round_at_exact)
  have lt: "\<not> (2 :: rat) ^ 1024 \<le> ?q"
  proof -
    have "(2 :: rat) ^ 53 \<le> 2 ^ 1024" by simp
    then show ?thesis using small by linarith
  qed
  show ?thesis
    unfolding to_number_def Let_def e r using pos lt by (simp only: if_False)
qed

lemma to_number_integral:
  "to_number (of_nat n) = JPosInf \<or> (\<exists>m. to_number (of_nat n) = JNum (of_nat m))"
proof (cases "n < 2 ^ 53")
  case True
  then show ?thesis using to_number_exact by blast
next
  case False
  let ?q = "of_nat n :: rat"
  have "of_nat (2 ^ 53) \<le> ?q" using False by (simp only: of_nat_le_iff)
  then have big: "2 ^ 53 \<le> ?q" by simp
  have z: "(2 :: rat) ^ 52 \<le> 2 ^ 53" by simp
  have "2 ^ 52 \<le> ?q" using big z by linarith
  from exp_down_steps [OF this, of 0] obtain k where "exp_down ?q 0 = int k" by auto
  then have e: "binary_exponent ?q = int k" using big by (simp add: binary_exponent_def)
  obtain r :: nat where r: "round_at ?q (int k) = of_nat (r * 2 ^ k)"
    using round_at_natural [of ?q k] by auto
  have z0: "(0 :: rat) < 2 ^ 53" by simp
  have pos: "\<not> ?q \<le> 0" using big z0 by linarith
  have eq: "to_number ?q = (if 2 ^ 1024 \<le> (of_nat (r * 2 ^ k) :: rat) then JPosInf
                            else JNum (of_nat (r * 2 ^ k)))"
    unfolding to_number_def Let_def e r using pos by (simp only: if_False)
  show ?thesis
  proof (cases "2 ^ 1024 \<le> (of_nat (r * 2 ^ k) :: rat)")
    case True
    then have "to_number ?q = JPosInf" using eq by (simp only: if_True)
    then show ?thesis by blast
  next
    case False
    then have "to_number ?q = JNum (of_nat (r * 2 ^ k))" using eq by (simp only: if_False)
    then show ?thesis by blast
  qed
qed

lemma to_number_overflow:
  assumes "2 ^ 1024 \<le> q"
  shows "to_number q = JPosInf"
proof -
  have pw: "(2 :: rat) ^ 53 \<le> 2 ^ 1024" "(2 :: rat) ^ 52 \<le> 2 ^ 1024" "(0 :: rat) < 2 ^ 53"
    by simp_all
  have big: "2 ^ 53 \<le> q" and b52: "2 ^ 52 \<le> q" using assms pw by linarith+
  have pos: "\<not> q \<le> 0" using big pw(3) by linarith
  from exp_down_steps [OF b52, of 0] obtain k where
    k: "exp_down q 0 = int k" and lo: "2 ^ 52 \<le> q / 2 ^ k" and hi: "q / 2 ^ k < 2 ^ 53"
    by auto
  have e: "binary_exponent q = int k" using big k by (simp add: binary_exponent_def)
  have "of_int (2 ^ 52) \<le> q / pow2 (int k)" using lo by (simp add: pow2_nonneg)
  from round_at_lower [OF this]
  have low: "(2 :: rat) ^ 52 * 2 ^ k \<le> round_at q (int k)" by (simp add: pow2_nonneg)
  have "q < 2 ^ 53 * 2 ^ k" using hi by (simp add: pos_divide_less_eq)
  with assms have "(2 :: rat) ^ 1024 < 2 ^ 53 * 2 ^ k" by (rule le_less_trans)
  then have h: "(2 :: rat) ^ 1024 < 2 ^ (53 + k)" by (simp only: power_add)
  have one: "(1 :: rat) < 2" by simp
  have "1024 < 53 + k" using power_less_imp_less_exp [OF one h] .
  then have "972 \<le> k" by simp
  then have "(2 :: rat) ^ 972 \<le> 2 ^ k" by (intro power_increasing) simp_all
  then have "(2 :: rat) ^ 52 * 2 ^ 972 \<le> 2 ^ 52 * 2 ^ k" by simp
  moreover have "(2 :: rat) ^ 52 * 2 ^ 972 = 2 ^ 1024" by simp
  ultimately have ov: "2 ^ 1024 \<le> round_at q (int k)" using low by linarith
  show ?thesis
    unfolding to_number_def Let_def e using pos ov by (simp only: if_False if_True)
qed

lemma to_number_ties_to_even: "to_number 9007199254740993 = JNum 9007199254740992"
proof -
  have e: "binary_exponent 9007199254740993 = 1"
    by (simp add: binary_exponent_def exp_down.simps)
  have f: "\<lfloor>(9007199254740993 :: rat) / 2\<rfloor> = 4503599627370496"
    by (rule floor_unique) simp_all
  show ?thesis
    by (simp add: to_number_def round_at_def e f pow2_def Let_def)
qed

lemma exp_up_bottom:
  "- 1074 \<le> e \<Longrightarrow> q * 2 ^ nat (e + 1074) < 2 ^ 52 \<Longrightarrow> exp_up q e = - 1074"
proof (induction q e rule: exp_up.induct)
  case (1 q e)
  show ?case
  proof (cases "q < 2 ^ 52 \<and> - 1074 < e")
    case True
    have s: "nat (e + 1074) = Suc (nat (e - 1 + 1074))" using True by linarith
    have eq: "2 * q * 2 ^ nat (e - 1 + 1074) = q * 2 ^ nat (e + 1074)"
      unfolding s by simp
    have "2 * q * 2 ^ nat (e - 1 + 1074) < 2 ^ 52"
      unfolding eq by (rule "1.prems"(2))
    moreover have "- 1074 \<le> e - 1" using True by simp
    ultimately have "exp_up (2 * q) (e - 1) = - 1074" using "1.IH" True by blast
    moreover have "exp_up q e = exp_up (2 * q) (e - 1)"
      using True by (subst exp_up.simps) auto
    ultimately show ?thesis by simp
  next
    case False
    have stop: "exp_up q e = e" using False by (subst exp_up.simps) auto
    have "e = - 1074"
    proof (rule ccontr)
      assume "e \<noteq> - 1074"
      then have "- 1074 < e" using "1.prems"(1) by simp
      then have q: "2 ^ 52 \<le> q" using False by auto
      have "(1 :: rat) \<le> 2 ^ nat (e + 1074)" by simp
      then have "q * 1 \<le> q * 2 ^ nat (e + 1074)"
        using q by (intro mult_left_mono) auto
      then show False using q "1.prems"(2) by simp
    qed
    then show ?thesis using stop by simp
  qed
qed

lemma div_pow2_nonpos: "q / pow2 (- int k) = q * 2 ^ k"
  by (simp add: pow2_nonpos)

lemma to_number_underflow:
  assumes "0 < q" and "q * 2 ^ 1075 < 1"
  shows "to_number q = JNum 0"
proof -
  have half: "q * 2 ^ 1074 < 1 / 2"
  proof -
    have "q * 2 ^ 1075 = q * 2 ^ 1074 * 2" by simp
    then show ?thesis using assms(2) by linarith
  qed
  have one: "(1 :: rat) \<le> 2 ^ 1074" by simp
  have "q * 1 \<le> q * 2 ^ 1074" using assms(1) one by (intro mult_left_mono) auto
  then have q1: "q < 1" using half by simp
  have p53: "(1 :: rat) \<le> 2 ^ 53" "(1 / 2 :: rat) \<le> 2 ^ 52" by simp_all
  have small: "\<not> 2 ^ 53 \<le> q" using q1 p53(1) by linarith
  have "q * 2 ^ nat (0 + 1074) < 2 ^ 52" using half p53(2) by simp
  then have "exp_up q 0 = - 1074" by (intro exp_up_bottom) simp_all
  then have e: "binary_exponent q = - int 1074" using small by (simp add: binary_exponent_def)
  define m where "m = q * 2 ^ 1074"
  have m0: "0 < m" "m < 1 / 2" using assms(1) half by (simp_all add: m_def)
  then have fl: "\<lfloor>m\<rfloor> = 0" by (intro floor_unique) simp_all
  have "round_at q (- int 1074) = 0"
    unfolding round_at_def Let_def div_pow2_nonpos m_def [symmetric] fl using m0 by simp
  then show ?thesis
    unfolding to_number_def Let_def e using assms(1) by simp
qed

section \<open>The amount of a submitted transaction\<close>

lemma digit_not_space: "is_digit c \<Longrightarrow> \<not> is_space c"
  by (auto simp: is_digit_def is_space_def)

lemma space_is_space: "is_space CHR '' ''"
  by (simp add: is_space_def)

lemma filter_group3: "filter (\<lambda>c. \<not> is_space c) (group3 ds) = filter (\<lambda>c. \<not> is_space c) ds"
  by (induction ds) (auto simp: space_is_space)

lemma filter_digits_id: "list_all is_digit ds \<Longrightarrow> filter (\<lambda>c. \<not> is_space c) ds = ds"
  by (induction ds) (auto simp: digit_not_space)

lemma takeWhile_digits: "list_all is_digit ds \<Longrightarrow> takeWhile is_digit ds = ds"
  by (induction ds) auto

lemma digit_not_sign: "is_digit c \<Longrightarrow> c \<noteq> CHR ''-'' \<and> c \<noteq> CHR ''+''"
  by (auto simp: is_digit_def)

lemma parseInt10_digits:
  assumes "list_all is_digit ds" and "ds \<noteq> []"
  shows "parseInt10 ds = to_number (of_nat (digits_val ds))"
proof -
  obtain c cs where ds: "ds = c # cs" using assms(2) by (cases ds) auto
  have c: "is_digit c" using assms(1) ds by simp
  have d: "dropWhile is_space ds = ds"
    using c ds by (simp add: digit_not_space)
  show ?thesis
    using d takeWhile_digits [OF assms(1)] assms(2) digit_not_sign [OF c] ds
    by (simp add: parseInt10_def Let_def)
qed

lemma parseAmount_formatAmountInput:
  "formatAmountInput v \<noteq> [] \<Longrightarrow>
   parseAmount (formatAmountInput v) = to_number (of_nat (digits_val (filter is_digit v)))"
proof -
  assume "formatAmountInput v \<noteq> []"
  then have ne: "filter is_digit v \<noteq> []"
    by (auto simp: formatAmountInput_def)
  have all: "list_all is_digit (filter is_digit v)"
    by (simp add: list_all_iff)
  have "formatAmountInput v = group3 (filter is_digit v)"
    using ne by (simp add: formatAmountInput_def)
  then have f: "filter (\<lambda>c. \<not> is_space c) (formatAmountInput v) = filter is_digit v"
    by (simp only: filter_group3 filter_digits_id [OF all])
  show ?thesis
    using ne f parseInt10_digits [OF all ne] by (simp add: parseAmount_def)
qed

lemma digits_val_zeros:
  "foldl (\<lambda>a c. 10 * a + ((of_char c :: nat) - 48)) a (replicate k (CHR ''0'')) = a * 10 ^ k"
  by (induction k arbitrary: a) simp_all

lemma digits_val_huge: "digits_val (filter is_digit huge_digits) = 2 * 10 ^ 308"
  by (simp add: huge_digits_def is_digit_def digits_val_def digits_val_zeros)

lemma huge_overflows: "(2 :: nat) ^ 1024 \<le> 2 * 10 ^ 308"
  by simp

lemma update_all_keeps:
  assumes "valid_key k" and "store_get s k = Some r"
  shows "\<exists>r'. store_get (snd (update_all nows i ids s)) k = Some r' \<and> (r' = r \<or> marked nows r r')"
proof (cases "k \<in> set ids")
  case True
  then show ?thesis
    using update_all_touched [OF assms, of nows r ids i] by auto
next
  case False
  then show ?thesis
    using assms(2) by (simp add: update_all_untouched)
qed

lemma db_showNotification: "db (showNotification m k w) = db w"
  by (simp add: showNotification_def)


lemma db_handleSubmit_fresh:
  assumes "nom_complet f \<noteq> []" "id_document f \<noteq> []" "telephone f \<noteq> []" "montant f \<noteq> []"
    and "store_get (db w) (JStr uuid) = None"
  shows "db (handleSubmit dateOf uuid now nows f snapshot w)
           = (if navigator_onLine w
              then db (trySync dateOf nows snapshot
                         (w\<lparr>db := store_write (new_transaction uuid now f) (db w)\<rparr>))
              else store_write (new_transaction uuid now f) (db w))"
proof -
  have k: "get_prop (new_transaction uuid now f) ''id'' = JStr uuid"
    by (simp add: new_transaction_def get_prop_def)
  have a: "addTransaction (new_transaction uuid now f) (db w)
             = (Inr (JStr uuid), store_write (new_transaction uuid now f) (db w))"
    using assms(5) k by (simp add: addTransaction_def store_add_def)
  show ?thesis
    using assms(1-4) a
    by (simp add: handleSubmit_def Let_def db_showNotification db_trySync db_loadTransactions
          loadTransactions_def)
qed


text \<open>
  C9, as the code has it. In the prototype the amount field only ever holds what
  \<^verbatim>\<open>formatAmountInput\<close> makes of the typed text. A submission that passes the check for
  empty fields, under an id that is not yet stored, leaves under that id a record whose
  \<^verbatim>\<open>montant\<close> is the Number value of the integer that the typed digits spell: never
  negative, never NaN and without a fraction. It is that integer itself below \<open>2 ^ 53\<close>,
  and it is Infinity from \<open>2 ^ 1024\<close> on.
\<close>

theorem handleSubmit_amount_nonnegative:
  assumes "montant f = formatAmountInput v"
    and "nom_complet f \<noteq> []" and "id_document f \<noteq> []" and "telephone f \<noteq> []"
    and "montant f \<noteq> []"
    and "store_get (db w) (JStr uuid) = None"
  shows "\<exists>r. store_get (db (handleSubmit dateOf uuid now nows f snapshot w)) (JStr uuid) = Some r
           \<and> get_prop r ''montant'' = to_number (of_nat (digits_val (filter is_digit v)))
           \<and> (get_prop r ''montant'' = JPosInf \<or> (\<exists>n. get_prop r ''montant'' = JNum (of_nat n)))
           \<and> (digits_val (filter is_digit v) < 2 ^ 53 \<longrightarrow>
                get_prop r ''montant'' = JNum (of_nat (digits_val (filter is_digit v))))
           \<and> (2 ^ 1024 \<le> digits_val (filter is_digit v) \<longrightarrow> get_prop r ''montant'' = JPosInf)"
proof -
  let ?tx = "new_transaction uuid now f"
  let ?n = "digits_val (filter is_digit v)"
  have ne: "formatAmountInput v \<noteq> []" using assms(1,5) by simp
  have m: "get_prop ?tx ''montant'' = to_number (of_nat ?n)"
    using assms(1) parseAmount_formatAmountInput [OF ne]
    by (simp add: new_transaction_def get_prop_def)
  have k: "get_prop ?tx ''id'' = JStr uuid"
    by (simp add: new_transaction_def get_prop_def)
  have g: "store_get (store_write ?tx (db w)) (JStr uuid) = Some ?tx"
    using k by (simp add: store_get_store_write)
  have v: "valid_key (JStr uuid)" by simp
  note keeps = update_all_keeps [OF v g, of nows 0]
  have d: "db (handleSubmit dateOf uuid now nows f snapshot w)
             = (if navigator_onLine w \<and> filter is_pending snapshot \<noteq> []
                then snd (update_all nows 0
                       (map (\<lambda>b. get_prop b ''id'') (filter is_pending snapshot))
                       (store_write ?tx (db w)))
                else store_write ?tx (db w))"
    by (simp add: db_handleSubmit_fresh [OF assms(2-6)] db_trySync)
  have "\<exists>r. store_get (db (handleSubmit dateOf uuid now nows f snapshot w)) (JStr uuid) = Some r
          \<and> (r = ?tx \<or> marked nows ?tx r)"
  proof (cases "navigator_onLine w \<and> filter is_pending snapshot \<noteq> []")
    case True
    have e: "db (handleSubmit dateOf uuid now nows f snapshot w)
               = snd (update_all nows 0
                       (map (\<lambda>b. get_prop b ''id'') (filter is_pending snapshot))
                       (store_write ?tx (db w)))"
      unfolding d using True by (rule if_P)
    show ?thesis
      using keeps [of "map (\<lambda>b. get_prop b ''id'') (filter is_pending snapshot)"]
      by (simp only: e)
  next
    case False
    have e: "db (handleSubmit dateOf uuid now nows f snapshot w) = store_write ?tx (db w)"
      unfolding d using False by (rule if_not_P)
    show ?thesis
      using g by (simp only: e) simp
  qed
  then obtain r where
    r: "store_get (db (handleSubmit dateOf uuid now nows f snapshot w)) (JStr uuid) = Some r"
    and c: "r = ?tx \<or> marked nows ?tx r"
    by blast
  have "get_prop r ''montant'' = get_prop ?tx ''montant''"
  proof (cases "r = ?tx")
    case True
    then show ?thesis by simp
  next
    case False
    then have "marked nows ?tx r" using c by blast
    then have "\<forall>fd. fd \<noteq> ''status'' \<and> fd \<noteq> ''synced_at'' \<longrightarrow> get_prop r fd = get_prop ?tx fd"
      unfolding marked_def by blast
    then show ?thesis by simp
  qed
  then have val: "get_prop r ''montant'' = to_number (of_nat ?n)"
    using m by simp
  have shape: "get_prop r ''montant'' = JPosInf \<or> (\<exists>n. get_prop r ''montant'' = JNum (of_nat n))"
    unfolding val by (rule to_number_integral)
  have small: "?n < 2 ^ 53 \<longrightarrow> get_prop r ''montant'' = JNum (of_nat ?n)"
    unfolding val using to_number_exact by blast
  have big: "2 ^ 1024 \<le> ?n \<longrightarrow> get_prop r ''montant'' = JPosInf"
  proof
    assume "2 ^ 1024 \<le> ?n"
    then have "(of_nat (2 ^ 1024) :: rat) \<le> of_nat ?n" by (simp only: of_nat_le_iff)
    then have "(2 :: rat) ^ 1024 \<le> of_nat ?n" by simp
    then show "get_prop r ''montant'' = JPosInf"
      unfolding val by (rule to_number_overflow)
  qed
  show ?thesis using r val shape small big by blast
qed

theorem handleSubmit_amount_nonnegative_witness:
  "montant filled_form = formatAmountInput ''50000'' \<and>
   store_get (db world0) (JStr ''u-1'') = None \<and>
   digits_val (filter is_digit ''50000'') < 2 ^ 53 \<and>
   (\<exists>r. store_get (db (handleSubmit no_date ''u-1'' ''2025-01-01T00:00:00.000Z'' fixed_now
                         filled_form [] world0)) (JStr ''u-1'') = Some r
        \<and> get_prop r ''montant'' = JNum 50000) \<and>
   montant huge_form = formatAmountInput huge_digits \<and>
   2 ^ 1024 \<le> digits_val (filter is_digit huge_digits) \<and>
   (\<exists>r. store_get (db (handleSubmit no_date ''u-1'' ''2025-01-01T00:00:00.000Z'' fixed_now
                         huge_form [] world0)) (JStr ''u-1'') = Some r
        \<and> get_prop r ''montant'' = JPosInf)"
proof -
  have f: "montant filled_form = formatAmountInput ''50000''"
    by (simp add: filled_form_def formatAmountInput_def is_digit_def)
  have e: "store_get (db world0) (JStr ''u-1'') = None"
    by (simp add: world0_def store_get_def)
  have n: "nom_complet filled_form \<noteq> []" "id_document filled_form \<noteq> []"
    "telephone filled_form \<noteq> []" "montant filled_form \<noteq> []"
    by (simp_all add: filled_form_def)
  have dv: "digits_val (filter is_digit ''50000'') = 50000"
    by (simp add: is_digit_def digits_val_def)
  have lt: "digits_val (filter is_digit ''50000'') < 2 ^ 53"
    unfolding dv by simp
  note t1 = handleSubmit_amount_nonnegative
              [OF f n e, of no_date "''2025-01-01T00:00:00.000Z''" fixed_now "[]"]
  have a: "\<exists>r. store_get (db (handleSubmit no_date ''u-1'' ''2025-01-01T00:00:00.000Z'' fixed_now
                         filled_form [] world0)) (JStr ''u-1'') = Some r
              \<and> get_prop r ''montant'' = JNum (of_nat (digits_val (filter is_digit ''50000'')))"
    using t1 lt by blast
  have a': "\<exists>r. store_get (db (handleSubmit no_date ''u-1'' ''2025-01-01T00:00:00.000Z'' fixed_now
                         filled_form [] world0)) (JStr ''u-1'') = Some r
              \<and> get_prop r ''montant'' = JNum 50000"
    using a unfolding dv by simp
  have hf: "montant huge_form = formatAmountInput huge_digits"
    by (simp add: huge_form_def)
  have hn: "nom_complet huge_form \<noteq> []" "id_document huge_form \<noteq> []"
    "telephone huge_form \<noteq> []"
    by (simp_all add: huge_form_def)
  have hm: "montant huge_form \<noteq> []"
    by (simp add: huge_form_def formatAmountInput_def huge_digits_def is_digit_def)
  have ge: "2 ^ 1024 \<le> digits_val (filter is_digit huge_digits)"
    unfolding digits_val_huge by (rule huge_overflows)
  note t2 = handleSubmit_amount_nonnegative
              [OF hf hn hm e, of no_date "''2025-01-01T00:00:00.000Z''" fixed_now "[]"]
  have b: "\<exists>r. store_get (db (handleSubmit no_date ''u-1'' ''2025-01-01T00:00:00.000Z'' fixed_now
                         huge_form [] world0)) (JStr ''u-1'') = Some r
              \<and> get_prop r ''montant'' = JPosInf"
    using t2 ge by blast
  show ?thesis
    using f e lt a' hf ge b by blast
qed

lemma parseFloat_minus_5: "parseFloat ''-5'' = JNum (- 5)"
proof -
  have "to_number (of_nat 5) = JNum (of_nat 5)"
    by (rule to_number_exact) simp
  then have "to_number 5 = JNum 5" by simp
  then show ?thesis
    by (simp add: parseFloat_def exponent_of_def is_space_def is_digit_def digits_val_def Let_def)
qed

lemma parseFloat_overflow: "parseFloat ''1e400'' = JPosInf"
proof -
  have "to_number (10 ^ 400) = JPosInf"
    by (rule to_number_overflow) simp
  then show ?thesis
    by (simp add: parseFloat_def exponent_of_def is_space_def is_digit_def digits_val_def Let_def)
qed

lemma parseFloat_underflow: "parseFloat ''1e-400'' = JNum 0"
proof -
  have "to_number (1 / 10 ^ 400) = JNum 0"
    by (rule to_number_underflow) simp_all
  then show ?thesis
    by (simp add: parseFloat_def exponent_of_def is_space_def is_digit_def digits_val_def Let_def)
qed

text \<open>
  C9 as stated fails in MobiLedger, where the field is a number input read with
  \<^verbatim>\<open>parseFloat\<close>: typing \<^verbatim>\<open>-5\<close> stores a transaction with the amount \<open>-5\<close>.
\<close>

theorem handleSubmit2_negative_counterexample:
  "store_get (db (handleSubmit2 no_date ''u-1'' ''2025-01-01T00:00:00.000Z'' fixed_now
                    negative_form [] world2)) (JStr ''u-1'')
     = Some (new_transaction2 ''u-1'' ''2025-01-01T00:00:00.000Z'' negative_form) \<and>
   get_prop (new_transaction2 ''u-1'' ''2025-01-01T00:00:00.000Z'' negative_form) ''montant''
     = JNum (- 5)"
  by (simp add: handleSubmit2_def negative_form_def world2_def addTransaction_def store_add_def
        new_transaction2_def get_prop_def store_get_def store_write_def loadTransactions_def
        getAllTransactions_def js_sort_def trySync_def trySync_start_def parseFloat_minus_5
        Let_def)

section \<open>The cache of the service workers\<close>

lemma map_of_cache_put: "map_of (cache_put c u r) u' = (if u' = u then Some r else map_of c u')"
  by (induction c) auto

lemma fold_caches_delete:
  "fold caches_delete ks cs = filter (\<lambda>(n, c). n \<notin> set ks) cs"
proof (induction ks arbitrary: cs)
  case Nil
  then show ?case by simp
next
  case (Cons k ks)
  have "filter (\<lambda>(n, c). n \<notin> set ks) (caches_delete k cs)
          = filter (\<lambda>(n, c). n \<notin> set (k # ks)) cs"
    by (induction cs) (auto simp: caches_delete_def)
  then show ?case
    by (simp add: Cons.IH)
qed

lemma caches_activate_v2:
  "caches (activate_v2 st) = filter (\<lambda>(n, c). n = CACHE_NAME_v2) (caches st)"
proof -
  have "filter (\<lambda>(n, c). n \<notin> set (filter (\<lambda>k. k \<noteq> CACHE_NAME_v2) (map fst (caches st))))
          (caches st)
        = filter (\<lambda>(n, c). n = CACHE_NAME_v2) (caches st)"
    by (rule filter_cong) (auto simp: image_iff)
  then show ?thesis
    by (simp add: activate_v2_def caches_keys_def fold_caches_delete)
qed

lemma map_of_filter_name:
  "map_of (filter (\<lambda>(n, c). n = k) cs) k = map_of cs k"
  by (induction cs) auto

lemma map_of_rename:
  "map_of (map (\<lambda>(n, c). if n = k then (n, g c) else (n, c)) cs) k = map_option g (map_of cs k)"
  by (induction cs) auto

lemma map_of_caches_open: "map_of (caches_open k cs) k = Some (case map_of cs k of None \<Rightarrow> [] | Some c \<Rightarrow> c)"
  by (auto simp: caches_open_def map_add_def split: option.splits)

lemma fold_put_absent:
  "u \<notin> fst ` set rs \<Longrightarrow> map_of c u = None \<Longrightarrow>
   map_of (fold (\<lambda>(u, r) c'. case r of None \<Rightarrow> c' | Some resp \<Rightarrow> cache_put c' u resp) rs c) u = None"
  by (induction rs arbitrary: c) (auto simp: map_of_cache_put split: option.splits)

lemma addAll_absent:
  assumes "addAll origin net urls c = Inr c'" and "u \<notin> (\<lambda>p. origin @ p) ` set urls"
    and "map_of c u = None"
  shows "map_of c' u = None"
proof -
  let ?rs = "map (\<lambda>p. (origin @ p, net (precache_request origin p))) urls"
  have c': "c' = fold (\<lambda>(u, r) c'. case r of None \<Rightarrow> c' | Some resp \<Rightarrow> cache_put c' u resp) ?rs c"
    using assms(1) by (simp add: addAll_def Let_def split: if_splits)
  have "u \<notin> fst ` set ?rs" using assms(2) by (auto simp: image_iff)
  then show ?thesis
    unfolding c' using assms(3) by (rule fold_put_absent)
qed

lemma filter_name_fresh:
  "map_of cs k = None \<Longrightarrow>
   filter (\<lambda>(n, c). n = k) (map (\<lambda>(n, c). if n = k then (n, c') else (n, c)) (cs @ [(k, [])]))
     = [(k, c')]"
proof -
  assume "map_of cs k = None"
  then have "k \<notin> fst ` set cs" by (simp add: map_of_eq_None_iff)
  then have "filter (\<lambda>(n, c). n = k) (map (\<lambda>(n, c). if n = k then (n, c') else (n, c)) cs) = []"
    by (induction cs) auto
  then show ?thesis by simp
qed

lemma install_fresh:
  assumes "map_of (caches st) name = None"
  shows "install name urls origin net st =
           (case addAll origin net urls [] of
              Inl e \<Rightarrow> (Inl e, st\<lparr>caches := caches st @ [(name, [])]\<rparr>)
            | Inr c' \<Rightarrow>
                (Inr (), st\<lparr>caches := map (\<lambda>(n, c). if n = name then (n, c') else (n, c))
                                         (caches st @ [(name, [])]),
                            waiting_skipped := True\<rparr>))"
proof -
  have mo: "map_of (caches_open name (caches st)) name = Some []"
    using assms by (simp add: map_of_caches_open)
  have op: "caches_open name (caches st) = caches st @ [(name, [])]"
    using assms by (simp add: caches_open_def)
  show ?thesis
    unfolding install_def Let_def mo by (simp only: op option.case)
qed

lemma install_v2_worker_v1: "fst (install_v2 app_origin always_ok worker_v1) = Inr ()"
  by (simp add: install_v2_def install_def caches_open_def worker_v1_def addAll_def
        always_ok_def ok_response_def PRECACHE_URLS_v2_def CACHE_NAME_v2_def Let_def)

text \<open>
  C7, as the code has it. When the worker of cache version 2 activates, every cache whose
  name is not its \<^verbatim>\<open>CACHE_NAME\<close> is deleted and its own cache is kept. So when version 2 is
  installed where no cache of its name exists yet, as with version 1 active, and then
  activates, the one cache left is version 2's, and a request for a URL that is not on
  its precache list finds nothing in the cache storage.
\<close>

theorem activate_v2_cutover:
  "(\<forall>n \<in> set (caches_keys (caches (activate_v2 st))). n = CACHE_NAME_v2) \<and>
   map_of (caches (activate_v2 st)) CACHE_NAME_v2 = map_of (caches st) CACHE_NAME_v2 \<and>
   (map_of (caches st) CACHE_NAME_v2 = None \<and> install_v2 origin net st = (Inr (), st1) \<longrightarrow>
      caches_keys (caches (activate_v2 st1)) = [CACHE_NAME_v2] \<and>
      (\<forall>req. url (req::request) \<notin> (\<lambda>p. origin @ p) ` set PRECACHE_URLS_v2 \<longrightarrow>
         caches_match req (caches (activate_v2 st1)) = None))"
proof (intro conjI impI)
  show "\<forall>n \<in> set (caches_keys (caches (activate_v2 st))). n = CACHE_NAME_v2"
    by (auto simp: caches_activate_v2 caches_keys_def)
  show "map_of (caches (activate_v2 st)) CACHE_NAME_v2 = map_of (caches st) CACHE_NAME_v2"
    by (simp add: caches_activate_v2 map_of_filter_name)
next
  assume h: "map_of (caches st) CACHE_NAME_v2 = None \<and> install_v2 origin net st = (Inr (), st1)"
  then have fresh: "map_of (caches st) CACHE_NAME_v2 = None" by simp
  obtain c' where
    add: "addAll origin net PRECACHE_URLS_v2 [] = Inr c'"
    and st1: "caches st1 = map (\<lambda>(n, c). if n = CACHE_NAME_v2 then (n, c') else (n, c))
                             (caches st @ [(CACHE_NAME_v2, [])])"
    using h unfolding install_v2_def install_fresh [OF fresh]
    by (cases "addAll origin net PRECACHE_URLS_v2 []") auto
  have only: "caches (activate_v2 st1) = [(CACHE_NAME_v2, c')]"
    unfolding caches_activate_v2 st1 using fresh by (rule filter_name_fresh)
  show "caches_keys (caches (activate_v2 st1)) = [CACHE_NAME_v2]"
    by (simp add: only caches_keys_def)
  show "\<forall>req. url (req::request) \<notin> (\<lambda>p. origin @ p) ` set PRECACHE_URLS_v2 \<longrightarrow>
          caches_match req (caches (activate_v2 st1)) = None"
  proof (intro allI impI)
    fix req :: request
    assume "url req \<notin> (\<lambda>p. origin @ p) ` set PRECACHE_URLS_v2"
    then have "map_of c' (url req) = None"
      using addAll_absent [OF add] by simp
    then show "caches_match req (caches (activate_v2 st1)) = None"
      by (simp add: only caches_match_def)
  qed
qed

theorem activate_v2_cutover_witness:
  "map_of (caches worker_v1) CACHE_NAME_v2 = None \<and>
   install_v2 app_origin always_ok worker_v1
     = (Inr (), snd (install_v2 app_origin always_ok worker_v1)) \<and>
   caches_match main_jsx (caches worker_v1) = Some old_response \<and>
   caches_keys (caches (activate_v2 (snd (install_v2 app_origin always_ok worker_v1))))
     = [''om-cache-v2''] \<and>
   caches_match main_jsx
      (caches (activate_v2 (snd (install_v2 app_origin always_ok worker_v1)))) = None"
proof -
  have fresh: "map_of (caches worker_v1) CACHE_NAME_v2 = None"
    by (simp add: worker_v1_def CACHE_NAME_v2_def)
  have inst: "install_v2 app_origin always_ok worker_v1
                = (Inr (), snd (install_v2 app_origin always_ok worker_v1))"
    using install_v2_worker_v1 by (simp add: prod_eq_iff)
  have old: "caches_match main_jsx (caches worker_v1) = Some old_response"
    by (simp add: caches_match_def main_jsx_def worker_v1_def)
  have notin: "url main_jsx \<notin> (\<lambda>p. app_origin @ p) ` set PRECACHE_URLS_v2"
    by (simp add: main_jsx_def app_origin_def PRECACHE_URLS_v2_def)
  note t = activate_v2_cutover [of worker_v1 app_origin always_ok
                                  "snd (install_v2 app_origin always_ok worker_v1)"]
  have k: "caches_keys (caches (activate_v2 (snd (install_v2 app_origin always_ok worker_v1))))
             = [CACHE_NAME_v2]"
    using t fresh inst by blast
  have m: "caches_match main_jsx
             (caches (activate_v2 (snd (install_v2 app_origin always_ok worker_v1)))) = None"
    using t fresh inst notin by blast
  show ?thesis
    using fresh inst old k m by (simp add: CACHE_NAME_v2_def)
qed

text \<open>
  C7 as stated fails for the worker of \<^verbatim>\<open>public/service-worker.js\<close>, whose activate
  listener only claims the clients: a cache under another name is still there afterwards.
\<close>

theorem activate_v1_counterexample:
  "caches_keys (caches (activate_v1 worker_v0)) = [''om-cache-v0'', ''om-cache-v1''] \<and>
   CACHE_NAME_v1 = ''om-cache-v1''"
  by (simp add: activate_v1_def worker_v0_def caches_keys_def CACHE_NAME_v1_def)

text \<open>
  C8, as the code has it. For a navigation request the worker of cache version 2 asks the
  network first and answers with the network's response whatever the caches hold; a
  response with status 200 to a GET is stored in the worker's cache under the request's
  URL, any other response is not stored. When the fetch is rejected the answer is the
  cached entry for \<^verbatim>\<open>/index.html\<close>.
\<close>

theorem fetch_v2_navigation:
  "mode req = ''navigate'' \<longrightarrow>
     (\<forall>resp. net req = Some resp \<longrightarrow>
        fst (fetch_v2 origin net req st) = Some resp \<and>
        (status resp = 200 \<and> http_method req = ''GET'' \<longrightarrow>
           (\<exists>c. map_of (caches (snd (fetch_v2 origin net req st))) CACHE_NAME_v2 = Some c \<and>
                map_of c (url req) = Some resp)) \<and>
        (status resp \<noteq> 200 \<longrightarrow> snd (fetch_v2 origin net req st) = st)) \<and>
     (net req = None \<longrightarrow>
        fetch_v2 origin net req st
          = (caches_match_url (origin @ ''/index.html'') (caches st), st))"
  by (auto simp: fetch_v2_def open_and_put_def map_of_rename map_of_caches_open map_of_cache_put)

theorem fetch_v2_navigation_witness:
  "mode navigation = ''navigate'' \<and>
   caches_match navigation (caches worker_v1) = Some old_response \<and>
   fst (fetch_v2 app_origin always_ok navigation worker_v1) = Some ok_response \<and>
   (\<exists>c. map_of (caches (snd (fetch_v2 app_origin always_ok navigation worker_v1))) CACHE_NAME_v2
           = Some c \<and> map_of c (url navigation) = Some ok_response) \<and>
   fetch_v2 app_origin offline navigation worker_v1 = (Some old_response, worker_v1)"
proof -
  have n: "mode navigation = ''navigate''" "http_method navigation = ''GET''"
    by (simp_all add: navigation_def)
  have a: "always_ok navigation = Some ok_response" "status ok_response = 200"
    by (simp_all add: always_ok_def ok_response_def)
  have o: "offline navigation = None"
    by (simp add: offline_def)
  have c: "caches_match navigation (caches worker_v1) = Some old_response"
    by (simp add: caches_match_def navigation_def worker_v1_def)
  have f: "caches_match_url (app_origin @ ''/index.html'') (caches worker_v1) = Some old_response"
    by (simp add: app_origin_def worker_v1_def)
  note t1 = fetch_v2_navigation [of navigation always_ok app_origin worker_v1]
  note t2 = fetch_v2_navigation [of navigation offline app_origin worker_v1]
  have r1: "fst (fetch_v2 app_origin always_ok navigation worker_v1) = Some ok_response"
    using t1 n a by blast
  have r2: "\<exists>c. map_of (caches (snd (fetch_v2 app_origin always_ok navigation worker_v1)))
                   CACHE_NAME_v2 = Some c \<and> map_of c (url navigation) = Some ok_response"
    using t1 n a by blast
  have r3: "fetch_v2 app_origin offline navigation worker_v1 = (Some old_response, worker_v1)"
    using t2 n o f by simp
  show ?thesis
    using n c r1 r2 r3 by blast
qed

text \<open>
  C8 as stated fails for the worker of \<^verbatim>\<open>public/service-worker.js\<close>, which looks in the
  caches first for every request: a navigation whose URL is cached is answered from the
  cache although the network would have answered.
\<close>

theorem fetch_v1_counterexample:
  "mode navigation = ''navigate'' \<and>
   always_ok navigation = Some ok_response \<and>
   fst (fetch_v1 app_origin always_ok navigation worker_v1) = Some old_response \<and>
   old_response \<noteq> ok_response"
  by (simp add: fetch_v1_def navigation_def always_ok_def worker_v1_def caches_match_def
        old_response_def ok_response_def)

end
